theory Spec2Isabelle
  imports Main
begin

section \<open>Numbers, arrays and outcomes\<close>

text \<open>
  The engine is TypeScript. Its \<^verbatim>\<open>number\<close> values are integers everywhere in the code
  modelled here (ids, counters, indices, the 20-bit generator register), so they are
  modelled as \<^typ>\<open>int\<close>; the sums and products the code forms on ids, counters and
  the register stay far below \<open>2^53\<close>, where double arithmetic on integers is exact.
  The one product with an operand of the caller's choice, \<^verbatim>\<open>range * x\<close> in
  \<^verbatim>\<open>randrange\<close>, is rounded as the double it is (see \<open>round_double\<close> below).
  \<^verbatim>\<open>Math.trunc(a / b)\<close> truncates towards zero and \<^verbatim>\<open>a % b\<close> takes the
  sign of the dividend, unlike \<open>div\<close> and \<open>mod\<close> of HOL, so both are written out.
\<close>

definition js_trunc_div :: "int \<Rightarrow> int \<Rightarrow> int" where
  "js_trunc_div a b = sgn a * sgn b * (\<bar>a\<bar> div \<bar>b\<bar>)"

definition js_rem :: "int \<Rightarrow> int \<Rightarrow> int" where
  "js_rem a b = sgn a * (\<bar>a\<bar> mod \<bar>b\<bar>)"

text \<open>
  An array read \<^verbatim>\<open>xs[i]\<close> is \<^verbatim>\<open>undefined\<close> outside the array. Reading a field of
  that (\<^verbatim>\<open>game.objects[i]!.place\<close>) throws a TypeError; the \<^verbatim>\<open>!\<close> of the source is
  a compile-time assertion only.
\<close>

definition nth_opt :: "'a list \<Rightarrow> int \<Rightarrow> 'a option" where
  "nth_opt xs i = (if 0 \<le> i \<and> i < int (length xs) then Some (xs ! nat i) else None)"

text \<open>
  What a call can do besides returning: throw (a TypeError of the runtime, the
  \<^verbatim>\<open>Error\<close> of \<^verbatim>\<open>bug()\<close> with its BugType, \<^verbatim>\<open>process.exit(code)\<close>), or
  never return. \<open>OutOfRange\<close> marks a read or write past the end of a \<^verbatim>\<open>number[]\<close>:
  JavaScript would go on with \<^verbatim>\<open>undefined\<close> in a numeric slot, which \<^typ>\<open>int\<close> cannot
  hold, so the model stops there. The state at the moment of the throw is kept, since
  the source mutates the game in place.
\<close>

datatype BugType =
    SPECIAL_TRAVEL_500_GT_L_GT_300_EXCEEDS_GOTO_LIST
  | VOCABULARY_TYPE_N_OVER_1000_NOT_BETWEEN_0_AND_3
  | INTRANSITIVE_ACTION_VERB_EXCEEDS_GOTO_LIST
  | TRANSITIVE_ACTION_VERB_EXCEEDS_GOTO_LIST
  | CONDITIONAL_TRAVEL_ENTRY_WITH_NO_ALTERATION
  | LOCATION_HAS_NO_TRAVEL_ENTRIES
  | HINT_NUMBER_EXCEEDS_GOTO_LIST
  | SPEECHPART_NOT_TRANSITIVE_OR_INTRANSITIVE_OR_UNKNOWN
  | ACTION_RETURNED_PHASE_CODE_BEYOND_END_OF_SWITCH

datatype error = TypeError | OutOfRange | Bug BugType | Exit int

datatype ('a, 's) outcome = Returns 'a 's | Throws error 's | Diverges

section \<open>Static tables (dungeon.ts)\<close>

text \<open>
  dungeon.ts re-exports the generated tables and enums of dungeon.generated.ts, which is
  produced from the story file by scripts/make-dungeon.ts. The engine reads them through
  their names (\<^verbatim>\<open>Obj.BIRD\<close>, \<^verbatim>\<open>Msg.MUST_DROP\<close>, \<^verbatim>\<open>travel[i]\<close>), so they are a
  parameter \<open>d\<close> of every function that reads them: each enum is a function from its
  member names to ids, each table a list indexed from 0. Only the members and fields
  read by the functions below are listed.
\<close>

datatype loc_name = LOC_PLOVER | LOC_ALCOVE | LOC_GRATE

datatype obj_name =
  BIRD | EMERALD | EGGS | TROLL | TROLL2 | CHASM | BEAR | SNAKE | DRAGON | DWARF | FOOD | AXE
  | OGRE

datatype motion_name =
  NUL | BACK | LOOK | CAVE | HERE | EAST | WEST | SOUTH | NORTH | NE | NW | SW | SE | UP | DOWN
  | FORWARD | LEFT | RIGHT | OUTSIDE | INSIDE | XYZZY | PLUGH | CRAWL

datatype action_name = FEE | FIE | FOE | FOO | FUM

datatype msg_name =
  TWIST_TURN | FORGOT_PATH | NOT_CONNECTED | NO_MORE_DETAIL | FOLLOW_STREAM | NEED_DETAIL
  | BAD_DIRECTION | UNSURE_FACING | NO_INOUT_HERE | NOTHING_HAPPENS | WHICH_WAY | CANT_APPLY
  | MUST_DROP | BAD_SAVE | VERSION_SKEW | SAVE_TAMPERING | BIRD_PINING | RIDICULOUS_ATTEMPT
  | NOTHING_EDIBLE | BIRD_DEVOURED | TROLL_VICES | REALLY_MAD | OGRE_FULL | AM_GAME | OK_MAN
  | START_OVER | WELL_POINTLESS

datatype objstate_name =
  TROLL_UNPAID | TROLL_PAIDONCE | TROLL_GONE | BRIDGE_WRECKED | BEAR_DEAD | UNTAMED_BEAR
  | SITTING_BEAR | DRAGON_BARS | AXE_HERE | EGGS_HERE | EGGS_VANISHED | EGGS_DONE

datatype DestType = dest_goto | dest_special | dest_speak

definition cond_goto :: int where "cond_goto = 0"
definition cond_pct :: int where "cond_pct = 1"
definition cond_carry :: int where "cond_carry = 2"
definition cond_with :: int where "cond_with = 3"
definition cond_not :: int where "cond_not = 4"

record ObjectData =
  inventory :: "string option"
  plac :: int
  fixd :: int
  isTreasure :: bool

record ActionData =
  message :: "string option"
  noaction :: bool

record TravelOp =
  motion :: int
  condtype :: int
  condarg1 :: int
  condarg2 :: int
  desttype :: DestType
  destval :: int
  nodwarves :: bool
  stop :: bool

record dungeon =
  NLOCATIONS :: int
  NOBJECTS :: int
  NDWARVES :: int
  NDEATHS :: int
  MAX_STATE :: int
  Location :: "loc_name \<Rightarrow> int"
  Obj :: "obj_name \<Rightarrow> int"
  Motion :: "motion_name \<Rightarrow> int"
  Action :: "action_name \<Rightarrow> int"
  Msg :: "msg_name \<Rightarrow> int"
  ObjState :: "objstate_name \<Rightarrow> int"
  objects :: "ObjectData list"
  actions :: "ActionData list"
  conditions :: "int list"
  travel :: "TravelOp list"
  tkey :: "int list"

text \<open>
  Modelled from the spec: \<^verbatim>\<open>Location.LOC_NOWHERE\<close> is a member of the generated enum,
  which is not among the sources; section 6 of the specification fixes its value
  ("Id 0 is reserved as none/nowhere throughout"), and the chains of the object model
  end at 0.
\<close>

definition LOC_NOWHERE :: int where "LOC_NOWHERE = 0"

section \<open>Game state (types.ts)\<close>

definition LCG_A :: int where "LCG_A = 1093"
definition LCG_C :: int where "LCG_C = 221587"
definition LCG_M :: int where "LCG_M = 1048576"
definition CARRIED :: int where "CARRIED = -1"
definition IS_FIXED :: int where "IS_FIXED = -1"
definition IS_FREE :: int where "IS_FREE = 0"

record LocationState =
  abbrev :: int
  atloc :: int

record DwarfState =
  seen :: int
  loc :: int
  oldloc :: int

text \<open>The field \<^verbatim>\<open>prop\<close> of the source is \<open>prop'\<close> here (\<open>prop\<close> is reserved).\<close>

record ObjectState =
  fixed :: int
  prop' :: int
  place :: int

record HintState =
  used :: bool
  lc :: int

record GameState =
  lcgX :: int
  abbnum :: int
  bonus :: int
  chloc :: int
  chloc2 :: int
  clock1 :: int
  clock2 :: int
  clshnt :: bool
  closed :: bool
  closng :: bool
  lmwarn :: bool
  novice :: bool
  panic :: bool
  wzdark :: bool
  blooded :: bool
  conds :: int
  detail :: int
  dflag :: int
  dkill :: int
  dtotal :: int
  foobar :: int
  holdng :: int
  igo :: int
  iwest :: int
  knfloc :: int
  limit :: int
  loc :: int
  newloc :: int
  numdie :: int
  oldloc :: int
  oldlc2 :: int
  oldobj :: int
  saved :: int
  tally :: int
  thresh :: int
  seenbigwords :: bool
  trnluz :: int
  turns :: int
  zzword :: string
  locs :: "LocationState list"
  dwarves :: "DwarfState list"
  objects :: "ObjectState list"
  hints :: "HintState list"
  link :: "int list"

text \<open>\<^verbatim>\<open>Settings\<close> without its log callback and script buffer, which nothing here reads.\<close>

record Settings =
  oldstyle :: bool
  prompt :: bool
  debug :: int

text \<open>
  Output is the sequence of calls made to the formatting layer (format.ts) and of raw
  writes. The message tables are generated data, so a message is identified by the id
  passed to \<^verbatim>\<open>rspeak\<close>, not by its rendered text.
\<close>

datatype arg = Num int | Str string

datatype event =
    Speak "string option" "arg list"
  | Rspeak int "arg list"
  | Sspeak int "arg list"
  | Pspeak int int bool int
  | Stderr_random int

type_synonym world = "GameState \<times> event list"

section \<open>Predicates on the state (types.ts)\<close>

definition and_then ::
  "('a, 's) outcome \<Rightarrow> ('a \<Rightarrow> 's \<Rightarrow> ('b, 's) outcome) \<Rightarrow> ('b, 's) outcome" where
  "and_then m f = (case m of Returns a s \<Rightarrow> f a s | Throws e s \<Rightarrow> Throws e s | Diverges \<Rightarrow> Diverges)"

text \<open>A step on the game alone, run inside a step that also writes output.\<close>

definition on_game :: "(GameState \<Rightarrow> ('a, GameState) outcome) \<Rightarrow> world \<Rightarrow> ('a, world) outcome" where
  "on_game f w =
     (case f (fst w) of
        Returns a g \<Rightarrow> Returns a (g, snd w)
      | Throws e g \<Rightarrow> Throws e (g, snd w)
      | Diverges \<Rightarrow> Diverges)"

definition TOTING :: "GameState \<Rightarrow> int \<Rightarrow> error + bool" where
  "TOTING game obj =
     (case nth_opt (objects game) obj of
        None \<Rightarrow> Inl TypeError
      | Some ob \<Rightarrow> Inr (place ob = CARRIED))"

definition AT :: "GameState \<Rightarrow> int \<Rightarrow> error + bool" where
  "AT game obj =
     (case nth_opt (objects game) obj of
        None \<Rightarrow> Inl TypeError
      | Some ob \<Rightarrow> Inr (place ob = loc game \<or> fixed ob = loc game))"

definition HERE :: "GameState \<Rightarrow> int \<Rightarrow> error + bool" where
  "HERE game obj =
     (case AT game obj of
        Inl e \<Rightarrow> Inl e
      | Inr True \<Rightarrow> Inr True
      | Inr False \<Rightarrow> TOTING game obj)"

text \<open>
  \<^verbatim>\<open>(mask & (1 << bit)) !== 0\<close>: the shift count is taken modulo 32, and the test
  reads one of the low 32 bits of the mask. A location without an entry in
  \<^verbatim>\<open>conditions\<close> gives \<^verbatim>\<open>undefined & ...\<close>, which is 0.
\<close>

definition tstbit :: "int \<Rightarrow> int \<Rightarrow> bool" where
  "tstbit m b = bit m (nat (b mod 32))"

definition COND_NOBACK :: int where "COND_NOBACK = 4"
definition COND_FORCED :: int where "COND_FORCED = 8"

definition CNDBIT :: "dungeon \<Rightarrow> int \<Rightarrow> int \<Rightarrow> bool" where
  "CNDBIT d l b = (case nth_opt (conditions d) l of None \<Rightarrow> False | Some m \<Rightarrow> tstbit m b)"

definition FORCED :: "dungeon \<Rightarrow> int \<Rightarrow> bool" where
  "FORCED d l = CNDBIT d l COND_FORCED"

definition PROP_STASHIFY :: "int \<Rightarrow> int" where
  "PROP_STASHIFY n = -1 - n"


definition set_prop :: "int \<Rightarrow> int \<Rightarrow> GameState \<Rightarrow> (unit, GameState) outcome" where
  "set_prop obj v game =
     (case nth_opt (objects game) obj of
        None \<Rightarrow> Throws TypeError game
      | Some ob \<Rightarrow> Returns () (game\<lparr>objects := (objects game)[nat obj := ob\<lparr>prop' := v\<rparr>]\<rparr>))"

definition set_fixed :: "int \<Rightarrow> int \<Rightarrow> GameState \<Rightarrow> (unit, GameState) outcome" where
  "set_fixed obj v game =
     (case nth_opt (objects game) obj of
        None \<Rightarrow> Throws TypeError game
      | Some ob \<Rightarrow> Returns () (game\<lparr>objects := (objects game)[nat obj := ob\<lparr>fixed := v\<rparr>]\<rparr>))"

definition OBJECT_STASHIFY :: "int \<Rightarrow> int \<Rightarrow> GameState \<Rightarrow> (unit, GameState) outcome" where
  "OBJECT_STASHIFY obj pval game = set_prop obj (PROP_STASHIFY pval) game"

section \<open>Object manipulation (object-manipulation.ts)\<close>

text \<open>
  The \<^verbatim>\<open>while\<close> loop of \<^verbatim>\<open>carry\<close>: follow \<^verbatim>\<open>link\<close> from \<open>temp\<close> until the entry
  that points to \<open>object\<close>. It runs forever when the object is not on the chain (a
  chain ends at 0, and \<^verbatim>\<open>link[0]\<close> is 0), and also once it steps outside the
  array, where every further read is \<^verbatim>\<open>undefined\<close>; \<open>None\<close> is not returning.
\<close>

partial_function (option) find_prev :: "int list \<Rightarrow> int \<Rightarrow> int \<Rightarrow> int option" where
  "find_prev lnk object temp =
     (case nth_opt lnk temp of
        None \<Rightarrow> None
      | Some next \<Rightarrow> if next \<noteq> object then find_prev lnk object next else Some temp)"

declare find_prev.simps [code]

text \<open>
  \<^verbatim>\<open>carry\<close>, first block: mark the object as carried and count it. The result is
  \<open>True\<close> when the function returns at once (already carried).
\<close>

definition carry_tote :: "dungeon \<Rightarrow> int \<Rightarrow> GameState \<Rightarrow> (bool, GameState) outcome" where
  "carry_tote d object game =
     (if object \<le> NOBJECTS d then
        (case nth_opt (objects game) object of
           None \<Rightarrow> Throws TypeError game
         | Some ob \<Rightarrow>
             if place ob = CARRIED then Returns True game
             else Returns False
               (game\<lparr>objects := (objects game)[nat object := ob\<lparr>place := CARRIED\<rparr>],
                     holdng := (if object \<noteq> Obj d BIRD then holdng game + 1 else holdng game)\<rparr>))
      else Returns False game)"

text \<open>\<^verbatim>\<open>carry\<close>, second block: take the object off the chain of \<open>where\<close>.\<close>

definition carry_unlink :: "int \<Rightarrow> int \<Rightarrow> GameState \<Rightarrow> (unit, GameState) outcome" where
  "carry_unlink object where' game =
     (case nth_opt (locs game) where' of
        None \<Rightarrow> Throws TypeError game
      | Some lst \<Rightarrow>
          if atloc lst = object then
            (case nth_opt (link game) object of
               None \<Rightarrow> Throws OutOfRange game
             | Some next \<Rightarrow>
                 Returns () (game\<lparr>locs := (locs game)[nat where' := lst\<lparr>atloc := next\<rparr>]\<rparr>))
          else
            (case find_prev (link game) object (atloc lst) of
               None \<Rightarrow> Diverges
             | Some temp \<Rightarrow>
                 (case nth_opt (link game) object of
                    None \<Rightarrow> Throws OutOfRange game
                  | Some next \<Rightarrow> Returns () (game\<lparr>link := (link game)[nat temp := next]\<rparr>))))"

definition carry :: "dungeon \<Rightarrow> int \<Rightarrow> int \<Rightarrow> GameState \<Rightarrow> (unit, GameState) outcome" where
  "carry d object where' game =
     and_then (carry_tote d object game)
       (\<lambda>early g. if early then Returns () g else carry_unlink object where' g)"

text \<open>
  \<^verbatim>\<open>drop\<close> (named \<open>drop_obj\<close>: \<open>drop\<close> is a list function of HOL), first block: record
  the new place, or the new second place of an id above \<^verbatim>\<open>NOBJECTS\<close>.
\<close>

definition drop_place :: "dungeon \<Rightarrow> int \<Rightarrow> int \<Rightarrow> GameState \<Rightarrow> (unit, GameState) outcome" where
  "drop_place d object where' game =
     (if object > NOBJECTS d then set_fixed (object - NOBJECTS d) where' game
      else
        (case nth_opt (objects game) object of
           None \<Rightarrow> Throws TypeError game
         | Some ob \<Rightarrow>
             Returns ()
               (game\<lparr>holdng := (if place ob = CARRIED \<and> object \<noteq> Obj d BIRD
                                  then holdng game - 1 else holdng game),
                     objects := (objects game)[nat object := ob\<lparr>place := where'\<rparr>]\<rparr>)))"

text \<open>\<^verbatim>\<open>drop\<close>, second block: put the object at the head of the chain of \<open>where\<close>.\<close>

definition drop_link :: "int \<Rightarrow> int \<Rightarrow> GameState \<Rightarrow> (unit, GameState) outcome" where
  "drop_link object where' game =
     (if where' = LOC_NOWHERE \<or> where' = CARRIED then Returns () game
      else
        (case nth_opt (locs game) where' of
           None \<Rightarrow> Throws TypeError game
         | Some lst \<Rightarrow>
             if 0 \<le> object \<and> object < int (length (link game)) then
               Returns ()
                 (game\<lparr>link := (link game)[nat object := atloc lst],
                       locs := (locs game)[nat where' := lst\<lparr>atloc := object\<rparr>]\<rparr>)
             else Throws OutOfRange game))"

definition drop_obj :: "dungeon \<Rightarrow> int \<Rightarrow> int \<Rightarrow> GameState \<Rightarrow> (unit, GameState) outcome" where
  "drop_obj d object where' game =
     and_then (drop_place d object where' game) (\<lambda>_ g. drop_link object where' g)"

text \<open>The \<^verbatim>\<open>from\<close> of \<^verbatim>\<open>move\<close>: where the id is now.\<close>

definition move_from :: "dungeon \<Rightarrow> int \<Rightarrow> GameState \<Rightarrow> int option" where
  "move_from d object game =
     (if object > NOBJECTS d then map_option fixed (nth_opt (objects game) (object - NOBJECTS d))
      else map_option place (nth_opt (objects game) object))"

definition move :: "dungeon \<Rightarrow> int \<Rightarrow> int \<Rightarrow> GameState \<Rightarrow> (unit, GameState) outcome" where
  "move d object where' game =
     (case move_from d object game of
        None \<Rightarrow> Throws TypeError game
      | Some from \<Rightarrow>
          and_then
            (if from \<noteq> LOC_NOWHERE \<and> from \<noteq> CARRIED then carry d object from game
             else Returns () game)
            (\<lambda>_ g. drop_obj d object where' g))"

definition put :: "dungeon \<Rightarrow> int \<Rightarrow> int \<Rightarrow> int \<Rightarrow> GameState \<Rightarrow> (unit, GameState) outcome" where
  "put d object where' pval game =
     and_then (move d object where' game) (\<lambda>_ g. OBJECT_STASHIFY object pval g)"

definition juggle :: "dungeon \<Rightarrow> int \<Rightarrow> GameState \<Rightarrow> (unit, GameState) outcome" where
  "juggle d object game =
     (case nth_opt (objects game) object of
        None \<Rightarrow> Throws TypeError game
      | Some ob \<Rightarrow>
          and_then (move d object (place ob) game)
            (\<lambda>_ g. move d (object + NOBJECTS d) (fixed ob) g))"

definition destroy :: "dungeon \<Rightarrow> int \<Rightarrow> GameState \<Rightarrow> (unit, GameState) outcome" where
  "destroy d object game = move d object LOC_NOWHERE game"

section \<open>Random numbers (rng.ts)\<close>

definition getNextLcgValue :: "Settings \<Rightarrow> world \<Rightarrow> int \<times> world" where
  "getNextLcgValue settings w =
     (case w of (game, out) \<Rightarrow>
        let oldX = lcgX game;
            game' = game\<lparr>lcgX := js_rem (LCG_A * lcgX game + LCG_C) LCG_M\<rparr>;
            out' = (if debug settings \<noteq> 0 then out @ [Stderr_random oldX] else out)
        in (oldX, (game', out')))"

text \<open>
  \<^verbatim>\<open>range * x\<close> is a product of doubles. For integer operands the exact product is an
  integer \<open>v\<close>, and the double that results is \<open>v\<close> rounded to 53 significant bits, ties
  to the even significand: \<open>v\<close> itself below \<open>2^53\<close>; otherwise, with \<open>e\<close> the number of
  bits beyond 53, the nearest multiple of \<open>2^e\<close>, and \<^verbatim>\<open>Infinity\<close> with the sign of
  \<open>v\<close> once that multiple reaches \<open>2^1024\<close>.
\<close>

datatype js_number = Finite int | Infinity | MinusInfinity

function bit_length :: "int \<Rightarrow> nat" where
  "bit_length a = (if a \<le> 0 then 0 else Suc (bit_length (a div 2)))"
  by pat_completeness auto
termination by (relation "measure nat") auto

declare bit_length.simps [simp del]

definition round_double :: "int \<Rightarrow> js_number" where
  "round_double v =
     (let a = \<bar>v\<bar> in
      if a < 2 ^ 53 then Finite v
      else
        let e = bit_length a - 53;
            q = a div 2 ^ e;
            r = a mod 2 ^ e;
            h = 2 ^ (e - 1);
            q' = (if h < r \<or> (r = h \<and> odd q) then q + 1 else q);
            m = q' * 2 ^ e
        in if 2 ^ 1024 \<le> m then (if v < 0 then MinusInfinity else Infinity)
           else Finite (sgn v * m))"

definition js_mul :: "int \<Rightarrow> int \<Rightarrow> js_number" where
  "js_mul a b = round_double (a * b)"

text \<open>
  \<^verbatim>\<open>Math.trunc(y / LCG_M)\<close> on the double \<open>y\<close>: dividing by a power of two is exact, and
  an infinite \<open>y\<close> stays infinite.
\<close>

definition trunc_quotient :: "js_number \<Rightarrow> int \<Rightarrow> js_number" where
  "trunc_quotient y b =
     (case y of
        Finite v \<Rightarrow> Finite (js_trunc_div v b)
      | Infinity \<Rightarrow> Infinity
      | MinusInfinity \<Rightarrow> MinusInfinity)"

text \<open>\<^verbatim>\<open>y < n\<close> for a double \<open>y\<close> and an integer \<open>n\<close>.\<close>

definition js_less :: "js_number \<Rightarrow> int \<Rightarrow> bool" where
  "js_less y n = (case y of Finite v \<Rightarrow> v < n | Infinity \<Rightarrow> False | MinusInfinity \<Rightarrow> True)"

definition randrange :: "Settings \<Rightarrow> int \<Rightarrow> world \<Rightarrow> js_number \<times> world" where
  "randrange settings range' w =
     (case getNextLcgValue settings w of
        (x, w') \<Rightarrow> (trunc_quotient (js_mul range' x) LCG_M, w'))"

section \<open>Dwarves at a location (object-manipulation.ts, dwarves.ts)\<close>

text \<open>
  The \<^verbatim>\<open>for\<close> loop of \<^verbatim>\<open>atdwrf\<close> over the dwarf indices still to visit, with the
  running value of \<^verbatim>\<open>at\<close>.
\<close>

fun atdwrf_loop :: "DwarfState list \<Rightarrow> int \<Rightarrow> int \<Rightarrow> int list \<Rightarrow> error + int" where
  "atdwrf_loop dws where' at [] = Inr at"
| "atdwrf_loop dws where' at (i # rest) =
     (case nth_opt dws i of
        None \<Rightarrow> Inl TypeError
      | Some dw \<Rightarrow>
          if DwarfState.loc dw = where' then Inr i
          else atdwrf_loop dws where' (if DwarfState.loc dw \<noteq> 0 then 0 else at) rest)"

text \<open>object-manipulation.ts: the bound 5 is written into the loop.\<close>

definition atdwrf :: "GameState \<Rightarrow> int \<Rightarrow> error + int" where
  "atdwrf game where' =
     (if dflag game < 2 then Inr 0
      else atdwrf_loop (dwarves game) where' (-1) [1, 2, 3, 4, 5])"

text \<open>
  dwarves.ts: the same function with the bound \<^verbatim>\<open>NDWARVES - 1\<close>.
\<close>

definition atdwrf_dwarves :: "dungeon \<Rightarrow> GameState \<Rightarrow> int \<Rightarrow> error + int" where
  "atdwrf_dwarves d game where' =
     (if dflag game < 2 then Inr 0
      else atdwrf_loop (dwarves game) where' (-1) [1 .. NDWARVES d - 1])"


section \<open>Output (format.ts)\<close>

definition SpeakType_look :: int where "SpeakType_look = 1"
definition SpeakType_change :: int where "SpeakType_change = 4"

definition emit :: "event \<Rightarrow> world \<Rightarrow> world" where
  "emit ev w = (fst w, snd w @ [ev])"

definition speak :: "string option \<Rightarrow> world \<Rightarrow> world" where
  "speak msg w = emit (Speak msg []) w"

definition rspeak :: "int \<Rightarrow> world \<Rightarrow> world" where
  "rspeak i w = emit (Rspeak i []) w"

definition pspeak :: "int \<Rightarrow> int \<Rightarrow> bool \<Rightarrow> int \<Rightarrow> world \<Rightarrow> world" where
  "pspeak obj mode blank skip w = emit (Pspeak obj mode blank skip) w"

definition stateChange :: "int \<Rightarrow> int \<Rightarrow> world \<Rightarrow> (unit, world) outcome" where
  "stateChange obj state w =
     and_then (on_game (set_prop obj state) w)
       (\<lambda>_ w'. Returns () (pspeak obj SpeakType_change True state w'))"

section \<open>Movement (movement.ts)\<close>

text \<open>
  \<^verbatim>\<open>playermove\<close> receives its collaborators as callbacks. They are bound here as main.ts
  binds them: \<^verbatim>\<open>rspeak\<close>, \<^verbatim>\<open>pspeak\<close> and \<^verbatim>\<open>stateChange\<close> of format.ts, \<^verbatim>\<open>move\<close>,
  \<^verbatim>\<open>drop\<close> and \<^verbatim>\<open>juggle\<close> of object-manipulation.ts, \<^verbatim>\<open>bug\<close> throwing an
  \<^verbatim>\<open>Error\<close>, \<^verbatim>\<open>PCT\<close> as \<^verbatim>\<open>randrange(game, settings, 100) < n\<close>. \<^verbatim>\<open>croak\<close> (death
  and reincarnation, which reads the player's answer) stays a parameter.
\<close>

definition PCT :: "Settings \<Rightarrow> int \<Rightarrow> world \<Rightarrow> bool \<times> world" where
  "PCT settings n w = (case randrange settings 100 w of (r, w') \<Rightarrow> (js_less r n, w'))"

definition traveleq :: "dungeon \<Rightarrow> int \<Rightarrow> int \<Rightarrow> bool option" where
  "traveleq d a b =
     (case nth_opt (travel d) a of
        None \<Rightarrow> None
      | Some ta \<Rightarrow>
          (case nth_opt (travel d) b of
             None \<Rightarrow> None
           | Some tb \<Rightarrow>
               Some (condtype ta = condtype tb \<and> condarg1 ta = condarg1 tb
                     \<and> condarg2 ta = condarg2 tb \<and> desttype ta = desttype tb
                     \<and> destval ta = destval tb)))"

text \<open>
  The search of "go back": from \<open>travelEntry\<close> to the last entry of the location, for
  an entry that goes to \<open>motion\<close> (here the location to go back to), remembering in
  \<open>teTmp\<close> an entry that goes there through a forced location. The result is the entry
  found, or \<open>None\<close> when there is none (\<^verbatim>\<open>NOT_CONNECTED\<close>).
\<close>

function back_search :: "dungeon \<Rightarrow> int \<Rightarrow> int \<Rightarrow> int \<Rightarrow> error + int option" where
  "back_search d motion' travelEntry teTmp =
     (case nth_opt (travel d) travelEntry of
        None \<Rightarrow> Inl TypeError
      | Some t \<Rightarrow>
          if desttype t \<noteq> dest_goto \<or> destval t \<noteq> motion' then
            (case (if desttype t = dest_goto \<and> FORCED d (destval t) then
                     (case nth_opt (tkey d) (destval t) of
                        None \<Rightarrow> Inl TypeError
                      | Some k \<Rightarrow>
                          (case nth_opt (travel d) k of
                             None \<Rightarrow> Inl TypeError
                           | Some t2 \<Rightarrow> Inr (if destval t2 = motion' then travelEntry else teTmp)))
                   else Inr teTmp) of
               Inl e \<Rightarrow> Inl e
             | Inr teTmp' \<Rightarrow>
                 if \<not> stop t then back_search d motion' (travelEntry + 1) teTmp'
                 else if teTmp' = 0 then Inr None
                 else Inr (Some teTmp'))
          else Inr (Some travelEntry))"
  by pat_completeness auto
termination
  by (relation "measure (\<lambda>(d, m, te, tt). nat (int (length (travel d)) - te))")
     (auto simp: nth_opt_def split: if_splits)

declare back_search.simps [simp del]

text \<open>
  The search for an entry that goes with the motion verb: the entry found, or \<open>None\<close>
  when the last entry of the location is passed without a match.
\<close>

function find_entry :: "dungeon \<Rightarrow> int \<Rightarrow> int \<Rightarrow> error + int option" where
  "find_entry d motion' travelEntry =
     (case nth_opt (travel d) travelEntry of
        None \<Rightarrow> Inl TypeError
      | Some t \<Rightarrow>
          if TravelOp.motion t = Motion d motion_name.HERE \<or> TravelOp.motion t = motion'
          then Inr (Some travelEntry)
          else if stop t then Inr None
          else find_entry d motion' (travelEntry + 1))"
  by pat_completeness auto
termination
  by (relation "measure (\<lambda>(d, m, te). nat (int (length (travel d)) - te))")
     (auto simp: nth_opt_def split: if_splits)

declare find_entry.simps [simp del]

text \<open>The \<^verbatim>\<open>switch\<close> on the motion that found no entry; the first matching case wins.\<close>

definition cant_go :: "dungeon \<Rightarrow> int \<Rightarrow> int" where
  "cant_go d motion' =
     (if motion' \<in> Motion d ` {EAST, WEST, SOUTH, NORTH, NE, NW, SW, SE, UP, DOWN}
        then Msg d BAD_DIRECTION
      else if motion' \<in> Motion d ` {FORWARD, LEFT, RIGHT} then Msg d UNSURE_FACING
      else if motion' \<in> Motion d ` {OUTSIDE, INSIDE} then Msg d NO_INOUT_HERE
      else if motion' \<in> Motion d ` {XYZZY, PLUGH} then Msg d NOTHING_HAPPENS
      else if motion' = Motion d CRAWL then Msg d WHICH_WAY
      else Msg d CANT_APPLY)"

text \<open>Whether the condition of a travel entry holds; a percentage rolls the generator.\<close>

definition condition_met :: "dungeon \<Rightarrow> Settings \<Rightarrow> TravelOp \<Rightarrow> world \<Rightarrow> (bool, world) outcome" where
  "condition_met d settings t w =
     (if condtype t < cond_not then
        (if condtype t = cond_goto \<or> condtype t = cond_pct then
           (if condarg1 t = 0 then Returns True w
            else (case PCT settings (condarg1 t) w of (b, w') \<Rightarrow> Returns b w'))
         else
           (case TOTING (fst w) (condarg1 t) of
              Inl e \<Rightarrow> Throws e w
            | Inr True \<Rightarrow> Returns True w
            | Inr False \<Rightarrow>
                if condtype t = cond_with then
                  (case AT (fst w) (condarg1 t) of
                     Inl e \<Rightarrow> Throws e w
                   | Inr b \<Rightarrow> Returns b w)
                else Returns False w))
      else
        (case nth_opt (objects (fst w)) (condarg1 t) of
           None \<Rightarrow> Throws TypeError w
         | Some ob \<Rightarrow> Returns (prop' ob \<noteq> condarg2 t) w))"

text \<open>
  The \<^verbatim>\<open>do ... while\<close> that skips to the next entry with another condition or
  destination than \<open>travelEntry\<close>, from \<open>teTmp\<close> on.
\<close>

function skip_same :: "dungeon \<Rightarrow> int \<Rightarrow> int \<Rightarrow> error + int" where
  "skip_same d travelEntry teTmp =
     (case nth_opt (travel d) teTmp of
        None \<Rightarrow> Inl TypeError
      | Some t \<Rightarrow>
          if stop t then Inl (Bug CONDITIONAL_TRAVEL_ENTRY_WITH_NO_ALTERATION)
          else
            (case traveleq d travelEntry (teTmp + 1) of
               None \<Rightarrow> Inl TypeError
             | Some True \<Rightarrow> skip_same d travelEntry (teTmp + 1)
             | Some False \<Rightarrow> Inr (teTmp + 1)))"
  by pat_completeness auto
termination
  by (relation "measure (\<lambda>(d, te, tt). nat (int (length (travel d)) - tt))")
     (auto simp: nth_opt_def split: if_splits)

declare skip_same.simps [simp del]

text \<open>Special travel 1, the passage between the Plover room and the alcove.\<close>

definition plover_passage :: "dungeon \<Rightarrow> world \<Rightarrow> (unit, world) outcome" where
  "plover_passage d w =
     (let g = (fst w)\<lparr>newloc := (if loc (fst w) = Location d LOC_PLOVER
                                   then Location d LOC_ALCOVE else Location d LOC_PLOVER)\<rparr>;
          stay = Returns () (rspeak (Msg d MUST_DROP) (g\<lparr>newloc := loc g\<rparr>, snd w))
      in if holdng g > 1 then stay
         else if holdng g = 1 then
           (case TOTING g (Obj d EMERALD) of
              Inl e \<Rightarrow> Throws e (g, snd w)
            | Inr toting \<Rightarrow> if \<not> toting then stay else Returns () (g, snd w))
         else Returns () (g, snd w))"

text \<open>Special travel 3, the troll bridge.\<close>

definition troll_bridge ::
  "dungeon \<Rightarrow> (world \<Rightarrow> (unit, world) outcome) \<Rightarrow> world \<Rightarrow> (unit, world) outcome" where
  "troll_bridge d croak w =
     (case nth_opt (objects (fst w)) (Obj d TROLL) of
        None \<Rightarrow> Throws TypeError w
      | Some troll \<Rightarrow>
          if prop' troll = ObjState d TROLL_PAIDONCE then
            and_then
              (on_game (set_prop (Obj d TROLL) (ObjState d TROLL_UNPAID))
                 (pspeak (Obj d TROLL) SpeakType_look True (ObjState d TROLL_PAIDONCE) w))
              (\<lambda>_ w. and_then (on_game (move d (Obj d TROLL2) LOC_NOWHERE) w)
              (\<lambda>_ w. and_then (on_game (move d (Obj d TROLL2 + NOBJECTS d) IS_FREE) w)
              (\<lambda>_ w.
                 (case nth_opt (dungeon.objects d) (Obj d TROLL) of
                    None \<Rightarrow> Throws TypeError w
                  | Some td \<Rightarrow>
                      and_then (on_game (move d (Obj d TROLL) (plac td)) w)
                      (\<lambda>_ w. and_then (on_game (move d (Obj d TROLL + NOBJECTS d) (fixd td)) w)
                      (\<lambda>_ w. and_then (on_game (juggle d (Obj d CHASM)) w)
                      (\<lambda>_ w. Returns () ((fst w)\<lparr>newloc := loc (fst w)\<rparr>, snd w))))))))
          else
            (case nth_opt (dungeon.objects d) (Obj d TROLL) of
               None \<Rightarrow> Throws TypeError w
             | Some td \<Rightarrow>
                 and_then
                   (on_game (\<lambda>g. if prop' troll = ObjState d TROLL_UNPAID
                                  then set_prop (Obj d TROLL) (ObjState d TROLL_PAIDONCE) g
                                  else Returns () g)
                      ((fst w)\<lparr>newloc := plac td + fixd td - loc (fst w)\<rparr>, snd w))
                 (\<lambda>_ w.
                    (case TOTING (fst w) (Obj d BEAR) of
                       Inl e \<Rightarrow> Throws e w
                     | Inr False \<Rightarrow> Returns () w
                     | Inr True \<Rightarrow>
                         and_then (stateChange (Obj d CHASM) (ObjState d BRIDGE_WRECKED) w)
                         (\<lambda>_ w. and_then (on_game (set_prop (Obj d TROLL) (ObjState d TROLL_GONE)) w)
                         (\<lambda>_ w. and_then (on_game (drop_obj d (Obj d BEAR) (newloc (fst w))) w)
                         (\<lambda>_ w. and_then (on_game (set_fixed (Obj d BEAR) IS_FIXED) w)
                         (\<lambda>_ w. and_then (on_game (set_prop (Obj d BEAR) (ObjState d BEAR_DEAD)) w)
                         (\<lambda>_ w. croak ((fst w)\<lparr>oldlc2 := newloc (fst w)\<rparr>, snd w))))))))))"

text \<open>
  The loop \<^verbatim>\<open>L12\<close>: test the condition of the entry; on failure skip to the next
  alternative; otherwise carry out the destination. Special travel 2 drops the emerald
  and goes on with the next alternative.
\<close>

function travel_loop ::
  "dungeon \<Rightarrow> Settings \<Rightarrow> (world \<Rightarrow> (unit, world) outcome) \<Rightarrow> int \<Rightarrow> world
     \<Rightarrow> (unit, world) outcome" where
  "travel_loop d settings croak travelEntry w =
     (case nth_opt (travel d) travelEntry of
        None \<Rightarrow> Throws TypeError w
      | Some t \<Rightarrow>
          (case condition_met d settings t w of
             Diverges \<Rightarrow> Diverges
           | Throws e w' \<Rightarrow> Throws e w'
           | Returns met w' \<Rightarrow>
               if \<not> met then
                 (case skip_same d travelEntry travelEntry of
                    Inl e \<Rightarrow> Throws e w'
                  | Inr teTmp \<Rightarrow> travel_loop d settings croak teTmp w')
               else
                 (let w1 = ((fst w')\<lparr>newloc := destval t\<rparr>, snd w')
                  in if desttype t = dest_goto then Returns () w1
                     else if desttype t = dest_speak then
                       Returns ()
                         (case rspeak (newloc (fst w1)) w1 of
                            (g, out) \<Rightarrow> (g\<lparr>newloc := loc g\<rparr>, out))
                     else if destval t = 1 then plover_passage d w1
                     else if destval t = 2 then
                       (case on_game (drop_obj d (Obj d EMERALD) (loc (fst w1))) w1 of
                          Diverges \<Rightarrow> Diverges
                        | Throws e w2 \<Rightarrow> Throws e w2
                        | Returns _ w2 \<Rightarrow>
                            (case skip_same d travelEntry travelEntry of
                               Inl e \<Rightarrow> Throws e w2
                             | Inr teTmp \<Rightarrow> travel_loop d settings croak teTmp w2))
                     else if destval t = 3 then troll_bridge d croak w1
                     else Throws (Bug SPECIAL_TRAVEL_500_GT_L_GT_300_EXCEEDS_GOTO_LIST) w1)))"
  by pat_completeness auto

lemma skip_same_greater: "skip_same d travelEntry teTmp = Inr r \<Longrightarrow> teTmp < r \<and> r \<le> int (length (travel d))"
proof (induction d travelEntry teTmp rule: skip_same.induct)
  case (1 d travelEntry teTmp)
  show ?case
  proof (cases "nth_opt (travel d) teTmp")
    case None
    with "1.prems" show ?thesis by (simp add: skip_same.simps [of d travelEntry teTmp])
  next
    case (Some t)
    then have lt: "teTmp < int (length (travel d))"
      by (simp add: nth_opt_def split: if_splits)
    show ?thesis
    proof (cases "stop t")
      case True
      with Some "1.prems" show ?thesis by (simp add: skip_same.simps [of d travelEntry teTmp])
    next
      case False
      show ?thesis
      proof (cases "traveleq d travelEntry (teTmp + 1)")
        case None
        with Some False "1.prems" show ?thesis
          by (simp add: skip_same.simps [of d travelEntry teTmp])
      next
        case (Some b)
        show ?thesis
        proof (cases b)
          case True
          with \<open>nth_opt (travel d) teTmp = Some t\<close> False Some "1.prems"
          have "skip_same d travelEntry (teTmp + 1) = Inr r"
            by (simp add: skip_same.simps [of d travelEntry teTmp])
          with "1.IH" [OF \<open>nth_opt (travel d) teTmp = Some t\<close> \<open>\<not> stop t\<close> Some] True
          show ?thesis by simp
        next
          case False
          with \<open>nth_opt (travel d) teTmp = Some t\<close> \<open>\<not> stop t\<close> Some "1.prems" lt
          show ?thesis by (simp add: skip_same.simps [of d travelEntry teTmp])
        qed
      qed
    qed
  qed
qed

termination travel_loop
proof (relation "measure (\<lambda>(d, s, c, te, w). nat (int (length (travel d)) + 1 - te))")
  show "wf (measure (\<lambda>(d, s, c, te, w). nat (int (length (travel d)) + 1 - te)))"
    by simp
next
  fix d :: dungeon and settings :: Settings and croak :: "world \<Rightarrow> (unit, world) outcome"
    and travelEntry :: int and w w' :: world and t met teTmp
  assume "nth_opt (travel d) travelEntry = Some t" "skip_same d travelEntry travelEntry = Inr teTmp"
  then have "travelEntry < teTmp" "teTmp \<le> int (length (travel d))"
    using skip_same_greater by blast+
  then show "((d, settings, croak, teTmp, w'), (d, settings, croak, travelEntry, w))
      \<in> measure (\<lambda>(d, s, c, te, w). nat (int (length (travel d)) + 1 - te))"
    by simp
next
  fix d :: dungeon and settings :: Settings and croak :: "world \<Rightarrow> (unit, world) outcome"
    and travelEntry :: int and w w2 :: world and t teTmp
  assume "nth_opt (travel d) travelEntry = Some t" "skip_same d travelEntry travelEntry = Inr teTmp"
  then have "travelEntry < teTmp" "teTmp \<le> int (length (travel d))"
    using skip_same_greater by blast+
  then show "((d, settings, croak, teTmp, w2), (d, settings, croak, travelEntry, w))
      \<in> measure (\<lambda>(d, s, c, te, w). nat (int (length (travel d)) + 1 - te))"
    by simp
qed

declare travel_loop.simps [simp del]

text \<open>"Go back": the motion that leads to where the player came from.\<close>

definition go_back :: "dungeon \<Rightarrow> world \<Rightarrow> int \<Rightarrow> (int option, world) outcome" where
  "go_back d w travelEntry =
     (let g = fst w;
          motion' = (if FORCED d (oldloc g) then oldlc2 g else oldloc g);
          w1 = (g\<lparr>oldlc2 := oldloc g, oldloc := loc g\<rparr>, snd w)
      in if CNDBIT d (loc g) COND_NOBACK then Returns None (rspeak (Msg d TWIST_TURN) w1)
         else if motion' = loc g then Returns None (rspeak (Msg d FORGOT_PATH) w1)
         else
           (case back_search d motion' travelEntry 0 of
              Inl e \<Rightarrow> Throws e w1
            | Inr None \<Rightarrow> Returns None (rspeak (Msg d NOT_CONNECTED) w1)
            | Inr (Some te) \<Rightarrow>
                (case nth_opt (travel d) te of
                   None \<Rightarrow> Throws TypeError w1
                 | Some t \<Rightarrow> Returns (Some (TravelOp.motion t)) w1)))"

text \<open>Ordinary travel: find the entry for the motion, then run the loop on it.\<close>

definition ordinary_travel ::
  "dungeon \<Rightarrow> Settings \<Rightarrow> (world \<Rightarrow> (unit, world) outcome) \<Rightarrow> int \<Rightarrow> int \<Rightarrow> world
     \<Rightarrow> (unit, world) outcome" where
  "ordinary_travel d settings croak motion' travelEntry w =
     (case find_entry d motion' travelEntry of
        Inl e \<Rightarrow> Throws e w
      | Inr None \<Rightarrow> Returns () (rspeak (cant_go d motion') w)
      | Inr (Some te) \<Rightarrow> travel_loop d settings croak te w)"

definition playermove ::
  "dungeon \<Rightarrow> Settings \<Rightarrow> (world \<Rightarrow> (unit, world) outcome) \<Rightarrow> int \<Rightarrow> world
     \<Rightarrow> (unit, world) outcome" where
  "playermove d settings croak motion' w =
     (case nth_opt (tkey d) (loc (fst w)) of
        None \<Rightarrow> Throws OutOfRange w
      | Some travelEntry \<Rightarrow>
          (let g = (fst w)\<lparr>newloc := loc (fst w)\<rparr>; out = snd w
           in if travelEntry = 0 then Throws (Bug LOCATION_HAS_NO_TRAVEL_ENTRIES) (g, out)
              else if motion' = Motion d NUL then Returns () (g, out)
              else if motion' = Motion d BACK then
                and_then (go_back d (g, out) travelEntry)
                  (\<lambda>found w'. case found of
                       None \<Rightarrow> Returns () w'
                     | Some back_motion \<Rightarrow> ordinary_travel d settings croak back_motion travelEntry w')
              else if motion' = Motion d LOOK then
                (let w1 = (if detail g < 3 then rspeak (Msg d NO_MORE_DETAIL) (g, out)
                           else (g, out));
                     g1 = (fst w1)\<lparr>detail := detail g + 1, wzdark := False\<rparr>
                 in case nth_opt (locs g1) (loc g1) of
                      None \<Rightarrow> Throws TypeError (g1, snd w1)
                    | Some lst \<Rightarrow>
                        Returns ()
                          (g1\<lparr>locs := (locs g1)[nat (loc g1) := lst\<lparr>abbrev := 0\<rparr>]\<rparr>, snd w1))
              else if motion' = Motion d CAVE then
                Returns ()
                  (rspeak
                     (if (CNDBIT d (loc g) 5 \<or> CNDBIT d (loc g) 7)
                         \<and> loc g \<noteq> Location d LOC_GRATE
                      then Msg d FOLLOW_STREAM else Msg d NEED_DETAIL)
                     (g, out))
              else
                ordinary_travel d settings croak motion' travelEntry
                  (g\<lparr>oldlc2 := oldloc g, oldloc := loc g\<rparr>, out)))"


section \<open>Actions (actions.ts)\<close>

datatype PhaseCode =
  GO_TERMINATE | GO_MOVE | GO_TOP | GO_CLEAROBJ | GO_CHECKHINT | GO_WORD2 | GO_UNKNOWN
  | GO_DWARFWAKE

text \<open>\<^verbatim>\<open>speak(game, io, actions[verb]!.message)\<close>, the default message of a verb.\<close>

definition speak_action :: "dungeon \<Rightarrow> int \<Rightarrow> world \<Rightarrow> (unit, world) outcome" where
  "speak_action d verb w =
     (case nth_opt (actions d) verb of
        None \<Rightarrow> Throws TypeError w
      | Some a \<Rightarrow> Returns () (speak (message a) w))"

text \<open>The case of the bear in \<^verbatim>\<open>feed\<close>.\<close>

definition feed_bear :: "dungeon \<Rightarrow> int \<Rightarrow> world \<Rightarrow> (unit, world) outcome" where
  "feed_bear d verb w =
     (case nth_opt (objects (fst w)) (Obj d BEAR) of
        None \<Rightarrow> Throws TypeError w
      | Some bear \<Rightarrow>
          if prop' bear = ObjState d BEAR_DEAD then
            Returns () (rspeak (Msg d RIDICULOUS_ATTEMPT) w)
          else if prop' bear = ObjState d UNTAMED_BEAR then
            (case HERE (fst w) (Obj d FOOD) of
               Inl e \<Rightarrow> Throws e w
             | Inr False \<Rightarrow> Returns () (rspeak (Msg d NOTHING_EDIBLE) w)
             | Inr True \<Rightarrow>
                 and_then (on_game (destroy d (Obj d FOOD)) w)
                 (\<lambda>_ w. and_then (on_game (set_fixed (Obj d AXE) IS_FREE) w)
                 (\<lambda>_ w. and_then (on_game (set_prop (Obj d AXE) (ObjState d AXE_HERE)) w)
                 (\<lambda>_ w. stateChange (Obj d BEAR) (ObjState d SITTING_BEAR) w))))
          else speak_action d verb w)"

text \<open>
  \<^verbatim>\<open>feed\<close>: the \<^verbatim>\<open>switch\<close> on the object, in the order of its cases; every case ends
  in \<^verbatim>\<open>GO_CLEAROBJ\<close>.
\<close>

definition feed_case :: "dungeon \<Rightarrow> int \<Rightarrow> int \<Rightarrow> world \<Rightarrow> (unit, world) outcome" where
  "feed_case d verb obj w =
     (if obj = Obj d BIRD then Returns () (rspeak (Msg d BIRD_PINING) w)
      else if obj = Obj d DRAGON then
        (case nth_opt (objects (fst w)) (Obj d DRAGON) of
           None \<Rightarrow> Throws TypeError w
         | Some dragon \<Rightarrow>
             Returns ()
               (rspeak (if prop' dragon \<noteq> ObjState d DRAGON_BARS
                        then Msg d RIDICULOUS_ATTEMPT else Msg d NOTHING_EDIBLE) w))
      else if obj = Obj d SNAKE then
        (if \<not> closed (fst w) then
           (case HERE (fst w) (Obj d BIRD) of
              Inl e \<Rightarrow> Throws e w
            | Inr True \<Rightarrow>
                and_then (on_game (destroy d (Obj d BIRD)) w)
                  (\<lambda>_ w. Returns () (rspeak (Msg d BIRD_DEVOURED) w))
            | Inr False \<Rightarrow> Returns () (rspeak (Msg d NOTHING_EDIBLE) w))
         else Returns () (rspeak (Msg d NOTHING_EDIBLE) w))
      else if obj = Obj d TROLL then Returns () (rspeak (Msg d TROLL_VICES) w)
      else if obj = Obj d DWARF then
        (case HERE (fst w) (Obj d FOOD) of
           Inl e \<Rightarrow> Throws e w
         | Inr True \<Rightarrow>
             Returns () (rspeak (Msg d REALLY_MAD) ((fst w)\<lparr>dflag := dflag (fst w) + 2\<rparr>, snd w))
         | Inr False \<Rightarrow> speak_action d verb w)
      else if obj = Obj d BEAR then feed_bear d verb w
      else if obj = Obj d OGRE then
        (case HERE (fst w) (Obj d FOOD) of
           Inl e \<Rightarrow> Throws e w
         | Inr True \<Rightarrow> Returns () (rspeak (Msg d OGRE_FULL) w)
         | Inr False \<Rightarrow> speak_action d verb w)
      else Returns () (rspeak (Msg d AM_GAME) w))"

definition feed :: "dungeon \<Rightarrow> int \<Rightarrow> int \<Rightarrow> world \<Rightarrow> (PhaseCode, world) outcome" where
  "feed d verb obj w = and_then (feed_case d verb obj w) (\<lambda>_ w. Returns GO_CLEAROBJ w)"



section \<open>The flag of the magic words in the command loop (game-loop.ts)\<close>




section \<open>The object invariant\<close>

fun is_chain :: "int list \<Rightarrow> int \<Rightarrow> int list \<Rightarrow> bool" where
  "is_chain lnk i [] = (i = 0)"
| "is_chain lnk i (x # xs) =
     (i = x \<and> 0 < x \<and> x < int (length lnk) \<and> is_chain lnk (lnk ! nat x) xs)"

fun walk :: "int list \<Rightarrow> nat \<Rightarrow> int \<Rightarrow> int list option" where
  "walk lnk 0 i = (if i = 0 then Some [] else None)"
| "walk lnk (Suc n) i =
     (if i = 0 then Some []
      else case nth_opt lnk i of
             None \<Rightarrow> None
           | Some next \<Rightarrow> map_option ((#) i) (walk lnk n next))"

definition chain :: "GameState \<Rightarrow> int \<Rightarrow> int list option" where
  "chain game l =
     (case nth_opt (locs game) l of
        None \<Rightarrow> None
      | Some lst \<Rightarrow> walk (link game) (length (link game)) (atloc lst))"

definition home :: "dungeon \<Rightarrow> GameState \<Rightarrow> int \<Rightarrow> int" where
  "home d game k =
     (if k > NOBJECTS d then fixed (objects game ! nat (k - NOBJECTS d))
      else place (objects game ! nat k))"

definition linked :: "dungeon \<Rightarrow> GameState \<Rightarrow> int option \<Rightarrow> bool" where
  "linked d game ex \<longleftrightarrow>
     0 \<le> NOBJECTS d \<and> 0 \<le> NLOCATIONS d \<and>
     int (length (objects game)) = NOBJECTS d + 1 \<and>
     int (length (link game)) = 2 * NOBJECTS d + 1 \<and>
     int (length (locs game)) = NLOCATIONS d + 1 \<and>
     (\<forall>k\<in>{1..2 * NOBJECTS d}. home d game k \<in> {-1..NLOCATIONS d}) \<and>
     chain game 0 = Some [] \<and>
     (\<forall>l\<in>{1..NLOCATIONS d}.
        case chain game l of
          None \<Rightarrow> False
        | Some xs \<Rightarrow> \<forall>k\<in>{1..2 * NOBJECTS d}. (k \<in> set xs) = (Some k \<noteq> ex \<and> home d game k = l))"

definition object_invariant :: "dungeon \<Rightarrow> GameState \<Rightarrow> bool" where
  "object_invariant d game = linked d game None"

text \<open>The invariant in the form used in proofs.\<close>

definition sizes_ok :: "dungeon \<Rightarrow> GameState \<Rightarrow> bool" where
  "sizes_ok d game \<longleftrightarrow>
     0 \<le> NOBJECTS d \<and> 0 \<le> NLOCATIONS d \<and>
     int (length (objects game)) = NOBJECTS d + 1 \<and>
     int (length (link game)) = 2 * NOBJECTS d + 1 \<and>
     int (length (locs game)) = NLOCATIONS d + 1"

definition moved_only :: "GameState \<Rightarrow> GameState \<Rightarrow> bool" where
  "moved_only g g' \<longleftrightarrow>
     g'\<lparr>objects := objects g, holdng := holdng g, locs := locs g, link := link g\<rparr> = g"

text \<open>The invariant as the specification words it: every object id is carried and on no
  chain, or not carried and on the chain of exactly one location.\<close>

definition on_chains :: "dungeon \<Rightarrow> GameState \<Rightarrow> int \<Rightarrow> int list" where
  "on_chains d game k =
     filter (\<lambda>l. case chain game l of None \<Rightarrow> False | Some xs \<Rightarrow> k \<in> set xs) [0..NLOCATIONS d]"

definition claimed_invariant :: "dungeon \<Rightarrow> GameState \<Rightarrow> bool" where
  "claimed_invariant d game \<longleftrightarrow>
     (\<forall>k\<in>{1..NOBJECTS d}.
        case nth_opt (objects game) k of
          None \<Rightarrow> False
        | Some ob \<Rightarrow>
            if place ob = CARRIED then on_chains d game k = []
            else length (on_chains d game k) = 1)"


section \<open>The sequence of magic words\<close>




text \<open>The location of dwarf \<open>i\<close>, for the statements about \<open>atdwrf\<close>.\<close>

definition dwarf_loc :: "GameState \<Rightarrow> int \<Rightarrow> int" where
  "dwarf_loc game i = DwarfState.loc (dwarves game ! nat i)"


section \<open>Save and restore (save.ts)\<close>

record SaveFile =
  magic :: string
  version :: int
  canary :: int
  game :: GameState














section \<open>A small dungeon and a state of it\<close>


fun obj0 :: "obj_name \<Rightarrow> int" where
  "obj0 BIRD = 1" | "obj0 EMERALD = 2" | "obj0 EGGS = 3" | "obj0 TROLL = 4" | "obj0 TROLL2 = 5"
| "obj0 CHASM = 6" | "obj0 BEAR = 7" | "obj0 SNAKE = 8" | "obj0 DRAGON = 9" | "obj0 DWARF = 10"
| "obj0 FOOD = 11" | "obj0 AXE = 12" | "obj0 OGRE = 13"

fun loc0 :: "loc_name \<Rightarrow> int" where
  "loc0 LOC_PLOVER = 1" | "loc0 LOC_ALCOVE = 2" | "loc0 LOC_GRATE = 3"

fun motion0 :: "motion_name \<Rightarrow> int" where
  "motion0 NUL = 0" | "motion0 BACK = 1" | "motion0 LOOK = 2" | "motion0 CAVE = 3"
| "motion0 motion_name.HERE = 4" | "motion0 EAST = 5" | "motion0 WEST = 6" | "motion0 SOUTH = 7"
| "motion0 NORTH = 8" | "motion0 NE = 9" | "motion0 NW = 10" | "motion0 SW = 11"
| "motion0 SE = 12" | "motion0 UP = 13" | "motion0 DOWN = 14" | "motion0 FORWARD = 15"
| "motion0 LEFT = 16" | "motion0 RIGHT = 17" | "motion0 OUTSIDE = 18" | "motion0 INSIDE = 19"
| "motion0 XYZZY = 20" | "motion0 PLUGH = 21" | "motion0 CRAWL = 22"

fun action0 :: "action_name \<Rightarrow> int" where
  "action0 FEE = 1" | "action0 FIE = 2" | "action0 FOE = 3" | "action0 FOO = 4" | "action0 FUM = 5"

fun msg0 :: "msg_name \<Rightarrow> int" where
  "msg0 TWIST_TURN = 1" | "msg0 FORGOT_PATH = 2" | "msg0 NOT_CONNECTED = 3"
| "msg0 NO_MORE_DETAIL = 4" | "msg0 FOLLOW_STREAM = 5" | "msg0 NEED_DETAIL = 6"
| "msg0 BAD_DIRECTION = 7" | "msg0 UNSURE_FACING = 8" | "msg0 NO_INOUT_HERE = 9"
| "msg0 NOTHING_HAPPENS = 10" | "msg0 WHICH_WAY = 11" | "msg0 CANT_APPLY = 12"
| "msg0 MUST_DROP = 13" | "msg0 BAD_SAVE = 14" | "msg0 VERSION_SKEW = 15"
| "msg0 SAVE_TAMPERING = 16" | "msg0 BIRD_PINING = 17" | "msg0 RIDICULOUS_ATTEMPT = 18"
| "msg0 NOTHING_EDIBLE = 19" | "msg0 BIRD_DEVOURED = 20" | "msg0 TROLL_VICES = 21"
| "msg0 REALLY_MAD = 22" | "msg0 OGRE_FULL = 23" | "msg0 AM_GAME = 24" | "msg0 OK_MAN = 25"
| "msg0 START_OVER = 26" | "msg0 WELL_POINTLESS = 27"

fun objstate0 :: "objstate_name \<Rightarrow> int" where
  "objstate0 TROLL_UNPAID = 0" | "objstate0 TROLL_PAIDONCE = 1" | "objstate0 TROLL_GONE = 2"
| "objstate0 BRIDGE_WRECKED = 1" | "objstate0 BEAR_DEAD = 3" | "objstate0 UNTAMED_BEAR = 0"
| "objstate0 SITTING_BEAR = 1" | "objstate0 DRAGON_BARS = 0" | "objstate0 AXE_HERE = 0"
| "objstate0 EGGS_HERE = 0" | "objstate0 EGGS_VANISHED = 1" | "objstate0 EGGS_DONE = 2"

definition od :: "int \<Rightarrow> int \<Rightarrow> bool \<Rightarrow> ObjectData" where
  "od p f t = \<lparr>inventory = Some ''*'', plac = p, fixd = f, isTreasure = t\<rparr>"

definition tr :: "int \<Rightarrow> int \<Rightarrow> int \<Rightarrow> DestType \<Rightarrow> int \<Rightarrow> bool \<Rightarrow> TravelOp" where
  "tr m ct c1 dt dv st =
     \<lparr>motion = m, condtype = ct, condarg1 = c1, condarg2 = 0, desttype = dt, destval = dv,
      nodwarves = False, stop = st\<rparr>"

text \<open>
  Four rooms: 1 the Plover room, 2 the alcove, 3 the grate, 4 the room of the eggs. Room 1
  has an exit east (entry 1) and the passage west (entry 2, special 1); room 3 has two
  exits to room 1 (entries 5 and 6), both open only to a player who carries the bear.
\<close>

definition d0 :: dungeon where
  "d0 = \<lparr>NLOCATIONS = 4, NOBJECTS = 13, NDWARVES = 6, NDEATHS = 3, MAX_STATE = 3,
     Location = loc0, Obj = obj0, Motion = motion0, Action = action0, Msg = msg0,
     ObjState = objstate0,
     objects = [od 0 0 False, od 1 0 False, od 1 0 True, od 4 0 True, od 2 3 False,
                od 0 0 False, od 0 0 False, od 0 0 False, od 0 0 False, od 0 0 False,
                od 0 0 False, od 1 0 False, od 0 0 False, od 0 0 False],
     actions = [\<lparr>message = None, noaction = False\<rparr>, \<lparr>message = Some ''?'', noaction = False\<rparr>],
     conditions = [0, 0, 0, 0, 0],
     travel = [tr 0 0 0 dest_goto 0 True,
               tr 5 0 0 dest_goto 2 False, tr 6 0 0 dest_special 1 True,
               tr 6 0 0 dest_goto 1 False, tr 5 0 0 dest_special 1 True,
               tr 5 2 7 dest_goto 1 False, tr 7 2 7 dest_goto 1 True,
               tr 7 0 0 dest_goto 3 True],
     tkey = [0, 1, 3, 5, 7]\<rparr>"

definition os :: "int \<Rightarrow> int \<Rightarrow> int \<Rightarrow> ObjectState" where
  "os pl fx pr = \<lparr>fixed = fx, prop' = pr, place = pl\<rparr>"

definition dw :: "int \<Rightarrow> DwarfState" where
  "dw l = \<lparr>seen = 0, loc = l, oldloc = l\<rparr>"

definition at0 :: "int \<Rightarrow> LocationState" where
  "at0 a = \<lparr>abbrev = 0, atloc = a\<rparr>"

text \<open>
  The player is in room 1 with the bird (1) and the food (11) on the floor, carrying the
  emerald (2); the troll (4) stands in room 2 and, as id 17, in room 3; the eggs (3) are
  in room 4; everything else is nowhere.
\<close>

definition game0 :: GameState where
  "game0 = \<lparr>lcgX = 5, abbnum = 5, bonus = 0, chloc = 0, chloc2 = 0, clock1 = 30, clock2 = 50,
     clshnt = False, closed = False, closng = False, lmwarn = False, novice = False,
     panic = False, wzdark = False, blooded = False, conds = 0, detail = 0, dflag = 2,
     dkill = 0, dtotal = 0, foobar = 0, holdng = 1, igo = 0, iwest = 0, knfloc = 0,
     limit = 330, loc = 1, newloc = 1, numdie = 0, oldloc = 1, oldlc2 = 1, oldobj = 0,
     saved = 0, tally = 1, thresh = 0, seenbigwords = False, trnluz = 0, turns = 0,
     zzword = ''X'', locs = [at0 0, at0 1, at0 4, at0 17, at0 3],
     dwarves = [dw 0, dw 0, dw 3, dw 1, dw 0, dw 1, dw 1],
     objects = [os 0 0 0, os 1 0 0, os (-1) 0 0, os 4 0 (-1), os 2 3 0, os 0 0 0, os 0 0 0,
                os 0 0 0, os 0 0 0, os 0 0 0, os 0 0 0, os 1 0 0, os 0 0 0, os 0 0 0],
     hints = [],
     link = [0, 11, 0, 0, 0, 0, 0, 0, 0, 0, 0, 0, 0, 0,
             0, 0, 0, 0, 0, 0, 0, 0, 0, 0, 0, 0, 0]\<rparr>"

definition settings0 :: Settings where
  "settings0 = \<lparr>oldstyle = False, prompt = True, debug = 0\<rparr>"

text \<open>A \<^verbatim>\<open>croak\<close> for the examples; none of them reaches it.\<close>

definition croak0 :: "world \<Rightarrow> (unit, world) outcome" where
  "croak0 w = Returns () w"

text \<open>
  The same dungeon cut down to two objects and two rooms: the bird (1) alone in room 1,
  the emerald (2) carried; and the state after \<^verbatim>\<open>drop(game, 1, 2)\<close>.
\<close>

definition d1 :: dungeon where
  "d1 = d0\<lparr>NLOCATIONS := 2, NOBJECTS := 2\<rparr>"

definition game1 :: GameState where
  "game1 = game0\<lparr>locs := [at0 0, at0 1, at0 0],
                   objects := [os 0 0 0, os 1 0 0, os (-1) 0 0],
                   link := [0, 0, 0, 0, 0]\<rparr>"

definition game1_dropped :: GameState where
  "game1_dropped = game0\<lparr>locs := [at0 0, at0 1, at0 1],
                           objects := [os 0 0 0, os 2 0 0, os (-1) 0 0],
                           link := [0, 0, 0, 0, 0]\<rparr>"


text \<open>
  \<open>game0\<close> closed, with the second id of object 5 written to room 1 and not linked there.
\<close>

definition game_closed :: GameState where
  "game_closed = game0\<lparr>closed := True, objects := (objects game0)[5 := os 0 1 0]\<rparr>"

section \<open>Chains\<close>

lemma is_chain_unique: "is_chain lnk i xs \<Longrightarrow> is_chain lnk i ys \<Longrightarrow> xs = ys"
proof (induction xs arbitrary: i ys)
  case Nil
  then show ?case by (cases ys) auto
next
  case (Cons x xs)
  then show ?case by (cases ys) auto
qed

lemma is_chain_range: "is_chain lnk i xs \<Longrightarrow> x \<in> set xs \<Longrightarrow> 0 < x \<and> x < int (length lnk)"
  by (induction xs arbitrary: i) auto

lemma is_chain_suffix: "is_chain lnk i (as @ x # bs) \<Longrightarrow> is_chain lnk x (x # bs)"
  by (induction as arbitrary: i) auto

lemma is_chain_distinct: "is_chain lnk i xs \<Longrightarrow> distinct xs"
proof (induction xs arbitrary: i)
  case Nil
  then show ?case by simp
next
  case (Cons x xs)
  have tail: "is_chain lnk (lnk ! nat x) xs" using Cons.prems by simp
  have "x \<notin> set xs"
  proof
    assume "x \<in> set xs"
    then obtain as bs where xs: "xs = as @ x # bs" by (auto simp: in_set_conv_decomp)
    with tail have "is_chain lnk x (x # bs)" using is_chain_suffix by blast
    then have "is_chain lnk (lnk ! nat x) bs" by simp
    with tail have "xs = bs" by (rule is_chain_unique)
    with xs show False by simp
  qed
  with Cons.IH [OF tail] show ?case by simp
qed

lemma is_chain_update:
  "0 \<le> x \<Longrightarrow> x \<notin> set xs \<Longrightarrow> is_chain (lnk[nat x := v]) i xs = is_chain lnk i xs"
proof (induction xs arbitrary: i)
  case Nil
  then show ?case by simp
next
  case (Cons y ys)
  have IH: "\<And>j. is_chain (lnk[nat x := v]) j ys = is_chain lnk j ys"
    using Cons by simp
  show ?case
  proof (cases "0 < y")
    case True
    with Cons.prems have "nat y \<noteq> nat x" by auto
    then have "lnk[nat x := v] ! nat y = lnk ! nat y" by simp
    then show ?thesis by (simp add: IH)
  next
    case False
    then show ?thesis by simp
  qed
qed

lemma walk_sound: "walk lnk n i = Some xs \<Longrightarrow> is_chain lnk i xs"
proof (induction n arbitrary: i xs)
  case 0
  then show ?case by (auto split: if_splits)
next
  case (Suc n)
  then show ?case
    by (auto simp: nth_opt_def split: if_splits option.splits)
qed

lemma walk_complete: "is_chain lnk i xs \<Longrightarrow> length xs \<le> n \<Longrightarrow> walk lnk n i = Some xs"
proof (induction n arbitrary: i xs)
  case 0
  then show ?case by simp
next
  case (Suc n)
  then show ?case by (cases xs) (auto simp: nth_opt_def)
qed

lemma is_chain_length:
  assumes "is_chain lnk i xs"
  shows "length xs \<le> length lnk"
proof -
  have "set xs \<subseteq> {1..<int (length lnk)}"
    using is_chain_range [OF assms] by force
  then have "card (set xs) \<le> card {1..<int (length lnk)}"
    by (intro card_mono) auto
  moreover have "card (set xs) = length xs"
    using is_chain_distinct [OF assms] by (simp add: distinct_card)
  ultimately show ?thesis by simp
qed

lemma walk_iff: "walk lnk (length lnk) i = Some xs \<longleftrightarrow> is_chain lnk i xs"
  using walk_sound walk_complete is_chain_length by blast

lemma find_prev_chain:
  "is_chain lnk i (as @ t # object # bs) \<Longrightarrow> object \<notin> set as \<Longrightarrow> t \<noteq> object
     \<Longrightarrow> find_prev lnk object i = Some t"
proof (induction as arbitrary: i)
  case Nil
  then show ?case
    by (subst find_prev.simps) (simp add: nth_opt_def)
next
  case (Cons a as)
  have nx: "lnk ! nat a \<noteq> object"
    using Cons.prems by (cases as) auto
  have "find_prev lnk object (lnk ! nat a) = Some t"
    using Cons.prems by (intro Cons.IH) auto
  with nx Cons.prems show ?case
    by (subst find_prev.simps) (simp add: nth_opt_def)
qed

lemma chain_iff:
  "0 \<le> l \<Longrightarrow> l < int (length (locs g)) \<Longrightarrow>
     chain g l = Some xs \<longleftrightarrow> is_chain (link g) (atloc (locs g ! nat l)) xs"
  by (simp add: chain_def nth_opt_def walk_iff)

lemma walk_nil: "walk lnk n i = Some [] \<longleftrightarrow> i = 0"
  by (cases n) (auto simp: nth_opt_def split: option.splits)

lemma linked_iff:
  "linked d g ex \<longleftrightarrow>
     sizes_ok d g \<and>
     (\<forall>k\<in>{1..2 * NOBJECTS d}. home d g k \<in> {-1..NLOCATIONS d}) \<and>
     atloc (locs g ! 0) = 0 \<and>
     (\<forall>l\<in>{1..NLOCATIONS d}. \<exists>xs. is_chain (link g) (atloc (locs g ! nat l)) xs \<and>
        (\<forall>k\<in>{1..2 * NOBJECTS d}. (k \<in> set xs) = (Some k \<noteq> ex \<and> home d g k = l)))"
  (is "?L \<longleftrightarrow> ?R")
proof
  assume L: ?L
  then have sz: "sizes_ok d g" by (simp add: linked_def sizes_ok_def)
  from L have c0: "chain g 0 = Some []" by (simp add: linked_def)
  have a0: "atloc (locs g ! 0) = 0"
    using c0 sz by (simp add: chain_def nth_opt_def sizes_ok_def walk_nil split: if_splits)
  have "\<exists>xs. is_chain (link g) (atloc (locs g ! nat l)) xs \<and>
        (\<forall>k\<in>{1..2 * NOBJECTS d}. (k \<in> set xs) = (Some k \<noteq> ex \<and> home d g k = l))"
    if l: "l \<in> {1..NLOCATIONS d}" for l
  proof -
    from L l have "case chain g l of None \<Rightarrow> False
        | Some xs \<Rightarrow> \<forall>k\<in>{1..2 * NOBJECTS d}. (k \<in> set xs) = (Some k \<noteq> ex \<and> home d g k = l)"
      unfolding linked_def by blast
    then obtain xs where xs: "chain g l = Some xs"
       and m: "\<forall>k\<in>{1..2 * NOBJECTS d}. (k \<in> set xs) = (Some k \<noteq> ex \<and> home d g k = l)"
      by (cases "chain g l") auto
    from xs l sz have "is_chain (link g) (atloc (locs g ! nat l)) xs"
      by (subst (asm) chain_iff) (auto simp: sizes_ok_def)
    with m show ?thesis by blast
  qed
  with L sz a0 show ?R by (simp add: linked_def)
next
  assume R: ?R
  then have sz: "sizes_ok d g" by simp
  from R sz have c0: "chain g 0 = Some []"
    by (simp add: chain_def nth_opt_def sizes_ok_def walk_nil)
  have "case chain g l of None \<Rightarrow> False
        | Some xs \<Rightarrow> \<forall>k\<in>{1..2 * NOBJECTS d}. (k \<in> set xs) = (Some k \<noteq> ex \<and> home d g k = l)"
    if l: "l \<in> {1..NLOCATIONS d}" for l
  proof -
    from R l obtain xs where xs: "is_chain (link g) (atloc (locs g ! nat l)) xs"
       and m: "\<forall>k\<in>{1..2 * NOBJECTS d}. (k \<in> set xs) = (Some k \<noteq> ex \<and> home d g k = l)"
      by blast
    from xs l sz have "chain g l = Some xs"
      by (subst chain_iff) (auto simp: sizes_ok_def)
    with m show ?thesis by simp
  qed
  with R sz c0 show ?L unfolding linked_def sizes_ok_def by blast
qed

lemma unlink_mid:
  "is_chain lnk i (as @ t # k # bs) \<Longrightarrow> distinct (as @ t # k # bs)
     \<Longrightarrow> is_chain (lnk[nat t := lnk ! nat k]) i (as @ t # bs)"
proof (induction as arbitrary: i)
  case Nil
  then have t: "0 < t" "t < int (length lnk)" and tl: "is_chain lnk (lnk ! nat k) bs"
     and "t \<notin> set bs" by auto
  then have "is_chain (lnk[nat t := lnk ! nat k]) (lnk ! nat k) bs"
    by (simp add: is_chain_update)
  with t Nil show ?case by simp
next
  case (Cons a as)
  then have a: "0 < a" "a < int (length lnk)" "i = a" "a \<noteq> t" "0 < t" by (auto dest: is_chain_range)
  then have "nat a \<noteq> nat t" by simp
  then have "lnk[nat t := lnk ! nat k] ! nat a = lnk ! nat a" by simp
  moreover have "is_chain (lnk[nat t := lnk ! nat k]) (lnk ! nat a) (as @ t # bs)"
    using Cons.prems by (intro Cons.IH) auto
  ultimately show ?case using a by simp
qed

lemma carry_unlink_chain:
  assumes sz: "sizes_ok d g" and w: "1 \<le> w" "w \<le> NLOCATIONS d"
    and ch: "is_chain (link g) (atloc (locs g ! nat w)) xs" and kin: "k \<in> set xs"
  shows "\<exists>g'. carry_unlink k w g = Returns () g'
           \<and> g' = g\<lparr>locs := locs g', link := link g'\<rparr>
           \<and> length (link g') = length (link g) \<and> length (locs g') = length (locs g)
           \<and> is_chain (link g') (atloc (locs g' ! nat w)) (remove1 k xs)
           \<and> (\<forall>l. 0 \<le> l \<and> l \<noteq> w \<longrightarrow> locs g' ! nat l = locs g ! nat l)
           \<and> (\<forall>ys i. set ys \<inter> set xs = {} \<longrightarrow> is_chain (link g') i ys = is_chain (link g) i ys)"
proof -
  have lw: "nth_opt (locs g) w = Some (locs g ! nat w)"
    using sz w by (simp add: nth_opt_def sizes_ok_def)
  have kr: "0 < k" "k < int (length (link g))"
    using is_chain_range [OF ch kin] by auto
  then have lk: "nth_opt (link g) k = Some (link g ! nat k)"
    by (simp add: nth_opt_def)
  have wl: "nat w < length (locs g)" using sz w unfolding sizes_ok_def by linarith
  show ?thesis
  proof (cases "atloc (locs g ! nat w) = k")
    case True
    with ch kin obtain xs' where xs: "xs = k # xs'" by (cases xs) auto
    define g' where "g' = g\<lparr>locs := (locs g)[nat w := (locs g ! nat w)\<lparr>atloc := link g ! nat k\<rparr>]\<rparr>"
    have r: "carry_unlink k w g = Returns () g'"
      using True lw lk by (simp add: carry_unlink_def g'_def)
    have "is_chain (link g') (atloc (locs g' ! nat w)) (remove1 k xs)"
      using ch xs wl by (simp add: g'_def)
    moreover have "\<forall>l. 0 \<le> l \<and> l \<noteq> w \<longrightarrow> locs g' ! nat l = locs g ! nat l"
      using w by (auto simp: g'_def nth_list_update)
    ultimately show ?thesis using r by (simp add: g'_def)
  next
    case False
    from kin obtain pre bs where xs: "xs = pre @ k # bs" and kpre: "k \<notin> set pre"
      by (auto dest: split_list_first)
    from False ch xs have "pre \<noteq> []" by (cases pre) auto
    then obtain as t where pre: "pre = as @ [t]" by (cases pre rule: rev_cases) auto
    have xs': "xs = as @ t # k # bs" using xs pre by simp
    have tk: "t \<noteq> k" "k \<notin> set as" using kpre pre by auto
    have fp: "find_prev (link g) k (atloc (locs g ! nat w)) = Some t"
      by (rule find_prev_chain [OF ch [unfolded xs'] tk(2) tk(1)])
    have tr: "0 < t" using is_chain_range [OF ch, of t] xs' by simp
    define g' where "g' = g\<lparr>link := (link g)[nat t := link g ! nat k]\<rparr>"
    have r: "carry_unlink k w g = Returns () g'"
      using False lw lk fp by (simp add: carry_unlink_def g'_def)
    have dist: "distinct (as @ t # k # bs)"
      using is_chain_distinct [OF ch] xs' by simp
    have rm: "remove1 k xs = as @ t # bs"
      using tk by (simp add: xs' remove1_append)
    have "is_chain (link g') (atloc (locs g' ! nat w)) (remove1 k xs)"
      unfolding rm g'_def using unlink_mid [OF ch [unfolded xs'] dist] by simp
    moreover have "is_chain (link g') i ys = is_chain (link g) i ys"
      if "set ys \<inter> set xs = {}" for ys i
    proof -
      from that have "t \<notin> set ys" using xs' by auto
      with tr show ?thesis by (simp add: g'_def is_chain_update)
    qed
    ultimately show ?thesis using r by (simp add: g'_def)
  qed
qed

lemma drop_link_chain:
  assumes sz: "sizes_ok d g" and w: "1 \<le> w" "w \<le> NLOCATIONS d"
    and ch: "is_chain (link g) (atloc (locs g ! nat w)) xs" and kout: "k \<notin> set xs"
    and k: "1 \<le> k" "k \<le> 2 * NOBJECTS d"
  shows "\<exists>g'. drop_link k w g = Returns () g'
           \<and> g' = g\<lparr>locs := locs g', link := link g'\<rparr>
           \<and> length (link g') = length (link g) \<and> length (locs g') = length (locs g)
           \<and> is_chain (link g') (atloc (locs g' ! nat w)) (k # xs)
           \<and> (\<forall>l. 0 \<le> l \<and> l \<noteq> w \<longrightarrow> locs g' ! nat l = locs g ! nat l)
           \<and> (\<forall>ys i. k \<notin> set ys \<longrightarrow> is_chain (link g') i ys = is_chain (link g) i ys)"
proof -
  have lw: "nth_opt (locs g) w = Some (locs g ! nat w)"
    using sz w by (simp add: nth_opt_def sizes_ok_def)
  have wl: "nat w < length (locs g)" using sz w unfolding sizes_ok_def by linarith
  have kr: "0 \<le> k" "k < int (length (link g))" "nat k < length (link g)"
    using sz k by (auto simp: sizes_ok_def)
  define g' where "g' = g\<lparr>link := (link g)[nat k := atloc (locs g ! nat w)],
                             locs := (locs g)[nat w := (locs g ! nat w)\<lparr>atloc := k\<rparr>]\<rparr>"
  have r: "drop_link k w g = Returns () g'"
    using lw kr w by (simp add: drop_link_def g'_def LOC_NOWHERE_def CARRIED_def)
  have upd: "is_chain (link g') i ys = is_chain (link g) i ys" if "k \<notin> set ys" for ys i
    using that kr by (simp add: g'_def is_chain_update)
  have "is_chain (link g') (atloc (locs g' ! nat w)) (k # xs)"
    using ch kout kr k wl upd [OF kout] by (simp add: g'_def)
  moreover have "\<forall>l. 0 \<le> l \<and> l \<noteq> w \<longrightarrow> locs g' ! nat l = locs g ! nat l"
    using w by (auto simp: g'_def nth_list_update)
  ultimately show ?thesis using r upd by (simp add: g'_def)
qed

lemma linkedD:
  assumes "linked d g ex"
  shows "sizes_ok d g"
    and "\<And>k. 1 \<le> k \<Longrightarrow> k \<le> 2 * NOBJECTS d \<Longrightarrow> -1 \<le> home d g k \<and> home d g k \<le> NLOCATIONS d"
    and "atloc (locs g ! 0) = 0"
    and "\<And>l. 1 \<le> l \<Longrightarrow> l \<le> NLOCATIONS d \<Longrightarrow>
          \<exists>xs. is_chain (link g) (atloc (locs g ! nat l)) xs \<and>
            (\<forall>k\<in>{1..2 * NOBJECTS d}. (k \<in> set xs) = (Some k \<noteq> ex \<and> home d g k = l))"
  using assms unfolding linked_iff by auto

lemma linkedI:
  assumes "sizes_ok d g"
    and "\<And>k. 1 \<le> k \<Longrightarrow> k \<le> 2 * NOBJECTS d \<Longrightarrow> -1 \<le> home d g k \<and> home d g k \<le> NLOCATIONS d"
    and "atloc (locs g ! 0) = 0"
    and "\<And>l. 1 \<le> l \<Longrightarrow> l \<le> NLOCATIONS d \<Longrightarrow>
          \<exists>xs. is_chain (link g) (atloc (locs g ! nat l)) xs \<and>
            (\<forall>k\<in>{1..2 * NOBJECTS d}. (k \<in> set xs) = (Some k \<noteq> ex \<and> home d g k = l))"
  shows "linked d g ex"
  using assms unfolding linked_iff by auto

text \<open>The members of a chain are ids of the index space.\<close>

lemma chain_ids:
  assumes "sizes_ok d g" "is_chain (link g) i xs" "x \<in> set xs"
  shows "1 \<le> x \<and> x \<le> 2 * NOBJECTS d"
  using is_chain_range [OF assms(2,3)] assms(1) by (simp add: sizes_ok_def)

lemma home_cong: "objects g' = objects g \<Longrightarrow> home d g' j = home d g j"
  by (simp add: home_def)

text \<open>What the first block of \<open>carry\<close> does to the places.\<close>

lemma home_place_update:
  assumes "sizes_ok d g" "1 \<le> k" "k \<le> NOBJECTS d" "1 \<le> j" "j \<le> 2 * NOBJECTS d"
  shows "home d (g\<lparr>objects := (objects g)[nat k := (objects g ! nat k)\<lparr>place := v\<rparr>]\<rparr>) j
         = (if j = k then v else home d g j)"
proof -
  have len: "nat k < length (objects g)"
    using assms unfolding sizes_ok_def by linarith
  show ?thesis
  proof (cases "j > NOBJECTS d")
    case True
    then show ?thesis using assms len
      by (cases "nat (j - NOBJECTS d) = nat k") (auto simp: home_def)
  next
    case False
    then have "nat j = nat k \<longleftrightarrow> j = k" using assms by auto
    with False show ?thesis using assms len
      by (auto simp: home_def nth_list_update)
  qed
qed

lemma home_fixed_update:
  assumes "sizes_ok d g" "NOBJECTS d < k" "k \<le> 2 * NOBJECTS d" "1 \<le> j" "j \<le> 2 * NOBJECTS d"
  shows "home d (g\<lparr>objects := (objects g)[nat (k - NOBJECTS d) :=
                    (objects g ! nat (k - NOBJECTS d))\<lparr>fixed := v\<rparr>]\<rparr>) j
         = (if j = k then v else home d g j)"
proof -
  have len: "nat (k - NOBJECTS d) < length (objects g)"
    using assms unfolding sizes_ok_def by linarith
  show ?thesis
  proof (cases "j > NOBJECTS d")
    case True
    then have "nat (j - NOBJECTS d) = nat (k - NOBJECTS d) \<longleftrightarrow> j = k" using assms by auto
    with True show ?thesis using assms len
      by (auto simp: home_def nth_list_update)
  next
    case False
    then show ?thesis using assms len
      by (cases "nat j = nat (k - NOBJECTS d)") (auto simp: home_def)
  qed
qed

lemma moved_only_refl: "moved_only g g"
  by (simp add: moved_only_def)

lemma moved_only_trans:
  assumes "moved_only g g1" "moved_only g1 g2"
  shows "moved_only g g2"
proof -
  have "g2\<lparr>objects := objects g, holdng := holdng g, locs := locs g, link := link g\<rparr>
      = (g2\<lparr>objects := objects g1, holdng := holdng g1, locs := locs g1, link := link g1\<rparr>)
          \<lparr>objects := objects g, holdng := holdng g, locs := locs g, link := link g\<rparr>"
    by simp
  also have "\<dots> = g1\<lparr>objects := objects g, holdng := holdng g, locs := locs g, link := link g\<rparr>"
    using assms(2) by (simp only: moved_only_def)
  also have "\<dots> = g" using assms(1) by (simp only: moved_only_def)
  finally show ?thesis by (simp only: moved_only_def)
qed

lemma carry_linked:
  assumes inv: "linked d g None" and k: "1 \<le> k" "k \<le> 2 * NOBJECTS d"
    and hw: "home d g k = w" and w1: "1 \<le> w"
  shows "\<exists>g'. carry d k w g = Returns () g' \<and> linked d g' (Some k) \<and> moved_only g g'
           \<and> objects g' = (if k \<le> NOBJECTS d
                then (objects g)[nat k := (objects g ! nat k)\<lparr>place := CARRIED\<rparr>] else objects g)
           \<and> holdng g' = (if k \<le> NOBJECTS d \<and> k \<noteq> Obj d BIRD then holdng g + 1 else holdng g)"
proof -
  note sz = linkedD(1) [OF inv] and rng = linkedD(2) [OF inv]
    and a0 = linkedD(3) [OF inv] and chs = linkedD(4) [OF inv]
  have w2: "w \<le> NLOCATIONS d" using rng [OF k] hw by simp
  obtain xs where xs: "is_chain (link g) (atloc (locs g ! nat w)) xs"
    and mem: "\<forall>j\<in>{1..2 * NOBJECTS d}. (j \<in> set xs) = (home d g j = w)"
    using chs [OF w1 w2] by auto
  have kin: "k \<in> set xs" using mem k hw by simp
  define g1 where "g1 = (if k \<le> NOBJECTS d
     then g\<lparr>objects := (objects g)[nat k := (objects g ! nat k)\<lparr>place := CARRIED\<rparr>],
             holdng := (if k \<noteq> Obj d BIRD then holdng g + 1 else holdng g)\<rparr>
     else g)"
  have tote: "carry_tote d k g = Returns False g1"
  proof (cases "k \<le> NOBJECTS d")
    case True
    then have "nth_opt (objects g) k = Some (objects g ! nat k)"
      using sz k by (simp add: nth_opt_def sizes_ok_def)
    moreover have "place (objects g ! nat k) \<noteq> CARRIED"
      using True hw w1 by (simp add: home_def CARRIED_def)
    ultimately show ?thesis using True by (simp add: carry_tote_def g1_def)
  next
    case False
    then show ?thesis by (simp add: carry_tote_def g1_def)
  qed
  have g1: "link g1 = link g" "locs g1 = locs g" "sizes_ok d g1" "moved_only g g1"
    using sz by (simp_all add: g1_def sizes_ok_def moved_only_def)
  have h1: "home d g1 j = (if j = k \<and> k \<le> NOBJECTS d then CARRIED else home d g j)"
    if "1 \<le> j" "j \<le> 2 * NOBJECTS d" for j
  proof (cases "k \<le> NOBJECTS d")
    case True
    have "home d g1 j = home d (g\<lparr>objects := (objects g)[nat k := (objects g ! nat k)\<lparr>place := CARRIED\<rparr>]\<rparr>) j"
      using True by (intro home_cong) (simp add: g1_def)
    then show ?thesis using home_place_update [OF sz k(1) True that] True by simp
  next
    case False
    then show ?thesis by (simp add: g1_def)
  qed
  obtain g' where r: "carry_unlink k w g1 = Returns () g'"
    and fr: "g' = g1\<lparr>locs := locs g', link := link g'\<rparr>"
    and len: "length (link g') = length (link g)" "length (locs g') = length (locs g)"
    and cw: "is_chain (link g') (atloc (locs g' ! nat w)) (remove1 k xs)"
    and lo: "\<And>l. 0 \<le> l \<Longrightarrow> l \<noteq> w \<Longrightarrow> locs g' ! nat l = locs g ! nat l"
    and oth: "\<And>ys i. set ys \<inter> set xs = {} \<Longrightarrow> is_chain (link g') i ys = is_chain (link g) i ys"
    using carry_unlink_chain [OF g1(3) w1 w2, of xs k] xs kin g1(1,2) by auto
  have og: "objects g' = objects g1" "holdng g' = holdng g1"
    by (subst fr, simp)+
  have h': "home d g' j = home d g1 j" for j
    by (simp add: home_def og)
  have "linked d g' (Some k)"
  proof (rule linkedI)
    show "sizes_ok d g'"
      using g1(3) len g1(1,2) og by (simp add: sizes_ok_def)
    show "- 1 \<le> home d g' j \<and> home d g' j \<le> NLOCATIONS d"
      if "1 \<le> j" "j \<le> 2 * NOBJECTS d" for j
      using rng [OF that] sz by (simp add: h' h1 [OF that] CARRIED_def sizes_ok_def)
    show "atloc (locs g' ! 0) = 0"
      using lo [of 0] w1 a0 by simp
    show "\<exists>ys. is_chain (link g') (atloc (locs g' ! nat l)) ys \<and>
            (\<forall>j\<in>{1..2 * NOBJECTS d}. (j \<in> set ys) = (Some j \<noteq> Some k \<and> home d g' j = l))"
      if l: "1 \<le> l" "l \<le> NLOCATIONS d" for l
    proof (cases "l = w")
      case True
      have "(j \<in> set (remove1 k xs)) = (Some j \<noteq> Some k \<and> home d g' j = l)"
        if j: "j \<in> {1..2 * NOBJECTS d}" for j
      proof -
        have "(j \<in> set (remove1 k xs)) = (j \<in> set xs \<and> j \<noteq> k)"
          using is_chain_distinct [OF xs] by auto
        then show ?thesis using mem j True h1 [of j] by (auto simp: h')
      qed
      with cw True show ?thesis by blast
    next
      case False
      obtain ys where ys: "is_chain (link g) (atloc (locs g ! nat l)) ys"
        and memy: "\<forall>j\<in>{1..2 * NOBJECTS d}. (j \<in> set ys) = (home d g j = l)"
        using chs [OF l] by auto
      have "set ys \<inter> set xs = {}"
      proof (rule ccontr)
        assume "set ys \<inter> set xs \<noteq> {}"
        then obtain x where x: "x \<in> set ys" "x \<in> set xs" by auto
        then have "x \<in> {1..2 * NOBJECTS d}" using chain_ids [OF sz xs] by simp
        with x mem memy False show False by auto
      qed
      then have "is_chain (link g') (atloc (locs g' ! nat l)) ys"
        using oth ys lo [of l] l False by simp
      moreover have "(j \<in> set ys) = (Some j \<noteq> Some k \<and> home d g' j = l)"
        if j: "j \<in> {1..2 * NOBJECTS d}" for j
        using memy j False hw h1 [of j] by (auto simp: h')
      ultimately show ?thesis by blast
    qed
  qed
  moreover have "moved_only g g'"
  proof (rule moved_only_trans [OF g1(4)])
    show "moved_only g1 g'" unfolding moved_only_def by (subst fr) (simp add: g1(1,2) og)
  qed
  moreover have "carry d k w g = Returns () g'"
    using tote r by (simp add: carry_def and_then_def)
  moreover have "objects g' = (if k \<le> NOBJECTS d
                then (objects g)[nat k := (objects g ! nat k)\<lparr>place := CARRIED\<rparr>] else objects g)"
    unfolding og by (simp add: g1_def)
  moreover have "holdng g' = (if k \<le> NOBJECTS d \<and> k \<noteq> Obj d BIRD then holdng g + 1 else holdng g)"
    unfolding og by (simp add: g1_def)
  ultimately show ?thesis by blast
qed

lemma drop_linked:
  assumes inv: "linked d g (Some k)" and k: "1 \<le> k" "k \<le> 2 * NOBJECTS d"
    and w: "-1 \<le> w" "w \<le> NLOCATIONS d"
  shows "\<exists>g'. drop_obj d k w g = Returns () g' \<and> linked d g' None \<and> moved_only g g'
           \<and> objects g' = (if k > NOBJECTS d
                then (objects g)[nat (k - NOBJECTS d) := (objects g ! nat (k - NOBJECTS d))\<lparr>fixed := w\<rparr>]
                else (objects g)[nat k := (objects g ! nat k)\<lparr>place := w\<rparr>])
           \<and> holdng g' = (if k \<le> NOBJECTS d \<and> place (objects g ! nat k) = CARRIED \<and> k \<noteq> Obj d BIRD
                then holdng g - 1 else holdng g)"
proof -
  note sz = linkedD(1) [OF inv] and rng = linkedD(2) [OF inv]
    and a0 = linkedD(3) [OF inv] and chs = linkedD(4) [OF inv]
  define g1 where "g1 = (if k > NOBJECTS d
     then g\<lparr>objects := (objects g)[nat (k - NOBJECTS d) := (objects g ! nat (k - NOBJECTS d))\<lparr>fixed := w\<rparr>]\<rparr>
     else g\<lparr>holdng := (if place (objects g ! nat k) = CARRIED \<and> k \<noteq> Obj d BIRD
                          then holdng g - 1 else holdng g),
             objects := (objects g)[nat k := (objects g ! nat k)\<lparr>place := w\<rparr>]\<rparr>)"
  have pl: "drop_place d k w g = Returns () g1"
  proof (cases "k > NOBJECTS d")
    case True
    then have "nth_opt (objects g) (k - NOBJECTS d) = Some (objects g ! nat (k - NOBJECTS d))"
      using sz k by (simp add: nth_opt_def sizes_ok_def)
    then show ?thesis using True by (simp add: drop_place_def set_fixed_def g1_def)
  next
    case False
    then have "nth_opt (objects g) k = Some (objects g ! nat k)"
      using sz k by (simp add: nth_opt_def sizes_ok_def)
    then show ?thesis using False by (simp add: drop_place_def g1_def)
  qed
  have g1: "link g1 = link g" "locs g1 = locs g" "sizes_ok d g1" "moved_only g g1"
    using sz by (simp_all add: g1_def sizes_ok_def moved_only_def)
  have h1: "home d g1 j = (if j = k then w else home d g j)"
    if "1 \<le> j" "j \<le> 2 * NOBJECTS d" for j
  proof (cases "k > NOBJECTS d")
    case True
    then show ?thesis using home_fixed_update [OF sz True k(2) that] by (simp add: g1_def)
  next
    case False
    have "home d g1 j = home d (g\<lparr>objects := (objects g)[nat k := (objects g ! nat k)\<lparr>place := w\<rparr>]\<rparr>) j"
      using False by (intro home_cong) (simp add: g1_def)
    then show ?thesis using home_place_update [OF sz k(1) _ that] False by simp
  qed
  have rng1: "- 1 \<le> home d g1 j \<and> home d g1 j \<le> NLOCATIONS d"
    if "1 \<le> j" "j \<le> 2 * NOBJECTS d" for j
    using rng [OF that] w by (simp add: h1 [OF that])
  have "\<exists>g'. drop_link k w g1 = Returns () g' \<and> linked d g' None \<and> moved_only g1 g'
          \<and> objects g' = objects g1 \<and> holdng g' = holdng g1"
  proof (cases "w = LOC_NOWHERE \<or> w = CARRIED")
    case True
    then have r: "drop_link k w g1 = Returns () g1" by (simp add: drop_link_def)
    have wl: "w < 1" using True by (auto simp: LOC_NOWHERE_def CARRIED_def)
    have "linked d g1 None"
    proof (rule linkedI [OF g1(3) rng1])
      show "atloc (locs g1 ! 0) = 0" using a0 g1 by simp
      show "\<exists>ys. is_chain (link g1) (atloc (locs g1 ! nat l)) ys \<and>
            (\<forall>j\<in>{1..2 * NOBJECTS d}. (j \<in> set ys) = (Some j \<noteq> None \<and> home d g1 j = l))"
        if l: "1 \<le> l" "l \<le> NLOCATIONS d" for l
      proof -
        obtain ys where ys: "is_chain (link g) (atloc (locs g ! nat l)) ys"
          and memy: "\<forall>j\<in>{1..2 * NOBJECTS d}. (j \<in> set ys) = (Some j \<noteq> Some k \<and> home d g j = l)"
          using chs [OF l] by auto
        have "(j \<in> set ys) = (Some j \<noteq> None \<and> home d g1 j = l)"
          if j: "j \<in> {1..2 * NOBJECTS d}" for j
          using memy j h1 [of j] wl l by auto
        with ys g1 show ?thesis by auto
      qed
    qed
    with r show ?thesis by (simp add: moved_only_refl)
  next
    case False
    then have w1: "1 \<le> w" using w by (auto simp: LOC_NOWHERE_def CARRIED_def)
    obtain xs where xs: "is_chain (link g1) (atloc (locs g1 ! nat w)) xs"
      and mem: "\<forall>j\<in>{1..2 * NOBJECTS d}. (j \<in> set xs) = (Some j \<noteq> Some k \<and> home d g j = w)"
      using chs [OF w1 w(2)] g1 by auto
    have kout: "k \<notin> set xs" using mem k by simp
    obtain g' where r: "drop_link k w g1 = Returns () g'"
      and fr: "g' = g1\<lparr>locs := locs g', link := link g'\<rparr>"
      and len: "length (link g') = length (link g1)" "length (locs g') = length (locs g1)"
      and cw: "is_chain (link g') (atloc (locs g' ! nat w)) (k # xs)"
      and lo: "\<And>l. 0 \<le> l \<Longrightarrow> l \<noteq> w \<Longrightarrow> locs g' ! nat l = locs g1 ! nat l"
      and oth: "\<And>ys i. k \<notin> set ys \<Longrightarrow> is_chain (link g') i ys = is_chain (link g1) i ys"
      using drop_link_chain [OF g1(3) w1 w(2) xs kout k] by auto
    have og: "objects g' = objects g1" "holdng g' = holdng g1"
      by (subst fr, simp)+
    have h': "home d g' j = home d g1 j" for j
      by (simp add: home_def og)
    have "linked d g' None"
    proof (rule linkedI)
      show "sizes_ok d g'"
        using g1(3) len og by (simp add: sizes_ok_def)
      show "- 1 \<le> home d g' j \<and> home d g' j \<le> NLOCATIONS d"
        if "1 \<le> j" "j \<le> 2 * NOBJECTS d" for j
        using rng1 [OF that] by (simp add: h')
      show "atloc (locs g' ! 0) = 0"
        using lo [of 0] w1 a0 g1 by simp
      show "\<exists>ys. is_chain (link g') (atloc (locs g' ! nat l)) ys \<and>
            (\<forall>j\<in>{1..2 * NOBJECTS d}. (j \<in> set ys) = (Some j \<noteq> None \<and> home d g' j = l))"
        if l: "1 \<le> l" "l \<le> NLOCATIONS d" for l
      proof (cases "l = w")
        case True
        have "(j \<in> set (k # xs)) = (Some j \<noteq> None \<and> home d g' j = l)"
          if j: "j \<in> {1..2 * NOBJECTS d}" for j
          using mem j True h1 [of j] by (auto simp: h')
        with cw True show ?thesis by blast
      next
        case False
        obtain ys where ys: "is_chain (link g1) (atloc (locs g1 ! nat l)) ys"
          and memy: "\<forall>j\<in>{1..2 * NOBJECTS d}. (j \<in> set ys) = (Some j \<noteq> Some k \<and> home d g j = l)"
          using chs [OF l] g1 by auto
        have "k \<notin> set ys" using memy k by simp
        then have "is_chain (link g') (atloc (locs g' ! nat l)) ys"
          using oth ys lo [of l] l False by simp
        moreover have "(j \<in> set ys) = (Some j \<noteq> None \<and> home d g' j = l)"
          if j: "j \<in> {1..2 * NOBJECTS d}" for j
          using memy j False h1 [of j] by (auto simp: h')
        ultimately show ?thesis by blast
      qed
    qed
    moreover have "moved_only g1 g'"
      unfolding moved_only_def by (subst fr) (simp add: og)
    ultimately show ?thesis using r og by blast
  qed
  then obtain g' where g': "drop_link k w g1 = Returns () g'" "linked d g' None" "moved_only g1 g'"
      "objects g' = objects g1" "holdng g' = holdng g1"
    by blast
  have "drop_obj d k w g = Returns () g'"
    using pl g'(1) by (simp add: drop_obj_def and_then_def)
  moreover have "moved_only g g'"
    by (rule moved_only_trans [OF g1(4) g'(3)])
  moreover have "objects g' = (if k > NOBJECTS d
                then (objects g)[nat (k - NOBJECTS d) := (objects g ! nat (k - NOBJECTS d))\<lparr>fixed := w\<rparr>]
                else (objects g)[nat k := (objects g ! nat k)\<lparr>place := w\<rparr>])"
    unfolding g'(4) by (simp add: g1_def)
  moreover have "holdng g' = (if k \<le> NOBJECTS d \<and> place (objects g ! nat k) = CARRIED \<and> k \<noteq> Obj d BIRD
                then holdng g - 1 else holdng g)"
    unfolding g'(5) by (simp add: g1_def)
  ultimately show ?thesis using g'(2) by blast
qed

text \<open>An id that is carried or nowhere is on no chain.\<close>

lemma linked_exclude:
  assumes inv: "linked d g None" and k: "1 \<le> k" "k \<le> 2 * NOBJECTS d" and h: "home d g k < 1"
  shows "linked d g (Some k)"
proof (rule linkedI [OF linkedD(1-3) [OF inv]])
  show "\<exists>xs. is_chain (link g) (atloc (locs g ! nat l)) xs \<and>
          (\<forall>j\<in>{1..2 * NOBJECTS d}. (j \<in> set xs) = (Some j \<noteq> Some k \<and> home d g j = l))"
    if l: "1 \<le> l" "l \<le> NLOCATIONS d" for l
  proof -
    obtain ys where ys: "is_chain (link g) (atloc (locs g ! nat l)) ys"
      and memy: "\<forall>j\<in>{1..2 * NOBJECTS d}. (j \<in> set ys) = (home d g j = l)"
      using linkedD(4) [OF inv l] by auto
    have "(j \<in> set ys) = (Some j \<noteq> Some k \<and> home d g j = l)" if "j \<in> {1..2 * NOBJECTS d}" for j
      using memy that h l by auto
    with ys show ?thesis by blast
  qed
qed

lemma move_from_home:
  assumes "sizes_ok d g" "1 \<le> k" "k \<le> 2 * NOBJECTS d"
  shows "move_from d k g = Some (home d g k)"
  using assms by (auto simp: move_from_def home_def nth_opt_def sizes_ok_def)

lemma move_linked:
  assumes inv: "linked d g None" and k: "1 \<le> k" "k \<le> 2 * NOBJECTS d"
    and w: "-1 \<le> w" "w \<le> NLOCATIONS d"
  shows "\<exists>g'. move d k w g = Returns () g' \<and> linked d g' None \<and> moved_only g g'
           \<and> objects g' = (if k > NOBJECTS d
                then (objects g)[nat (k - NOBJECTS d) := (objects g ! nat (k - NOBJECTS d))\<lparr>fixed := w\<rparr>]
                else (objects g)[nat k := (objects g ! nat k)\<lparr>place := w\<rparr>])
           \<and> holdng g' = (if k \<le> NOBJECTS d \<and> place (objects g ! nat k) = CARRIED \<and> k \<noteq> Obj d BIRD
                then holdng g - 1 else holdng g)"
proof -
  note sz = linkedD(1) [OF inv]
  have mf: "move_from d k g = Some (home d g k)" by (rule move_from_home [OF sz k])
  show ?thesis
  proof (cases "home d g k < 1")
    case True
    have rng: "-1 \<le> home d g k" using linkedD(2) [OF inv k] by simp
    with True have hk: "home d g k = LOC_NOWHERE \<or> home d g k = CARRIED"
      by (auto simp: LOC_NOWHERE_def CARRIED_def)
    have ex: "linked d g (Some k)" by (rule linked_exclude [OF inv k True])
    have "move d k w g = drop_obj d k w g"
      using mf hk by (auto simp: move_def and_then_def)
    then show ?thesis using drop_linked [OF ex k w] by simp
  next
    case False
    then have h1: "1 \<le> home d g k" by simp
    then have hk: "home d g k \<noteq> LOC_NOWHERE \<and> home d g k \<noteq> CARRIED"
      by (auto simp: LOC_NOWHERE_def CARRIED_def)
    obtain g1 where c: "carry d k (home d g k) g = Returns () g1" and l1: "linked d g1 (Some k)"
      and m1: "moved_only g g1"
      and o1: "objects g1 = (if k \<le> NOBJECTS d
                then (objects g)[nat k := (objects g ! nat k)\<lparr>place := CARRIED\<rparr>] else objects g)"
      and n1: "holdng g1 = (if k \<le> NOBJECTS d \<and> k \<noteq> Obj d BIRD then holdng g + 1 else holdng g)"
      using carry_linked [OF inv k refl h1] by blast
    obtain g' where dr: "drop_obj d k w g1 = Returns () g'" and l2: "linked d g' None"
      and m2: "moved_only g1 g'"
      and o2: "objects g' = (if k > NOBJECTS d
                then (objects g1)[nat (k - NOBJECTS d) := (objects g1 ! nat (k - NOBJECTS d))\<lparr>fixed := w\<rparr>]
                else (objects g1)[nat k := (objects g1 ! nat k)\<lparr>place := w\<rparr>])"
      and n2: "holdng g' = (if k \<le> NOBJECTS d \<and> place (objects g1 ! nat k) = CARRIED \<and> k \<noteq> Obj d BIRD
                then holdng g1 - 1 else holdng g1)"
      using drop_linked [OF l1 k w] by blast
    have len: "k \<le> NOBJECTS d \<Longrightarrow> nat k < length (objects g)"
      using sz k unfolding sizes_ok_def by linarith
    have "move d k w g = Returns () g'"
      using mf hk c dr by (simp add: move_def and_then_def)
    moreover have "moved_only g g'" by (rule moved_only_trans [OF m1 m2])
    moreover have "objects g' = (if k > NOBJECTS d
                then (objects g)[nat (k - NOBJECTS d) := (objects g ! nat (k - NOBJECTS d))\<lparr>fixed := w\<rparr>]
                else (objects g)[nat k := (objects g ! nat k)\<lparr>place := w\<rparr>])"
      unfolding o2 o1 using len by (cases "k > NOBJECTS d") simp_all
    moreover have "holdng g' = (if k \<le> NOBJECTS d \<and> place (objects g ! nat k) = CARRIED \<and> k \<noteq> Obj d BIRD
                then holdng g - 1 else holdng g)"
    proof (cases "k \<le> NOBJECTS d")
      case True
      then have "place (objects g ! nat k) \<noteq> CARRIED"
        using h1 by (simp add: home_def CARRIED_def)
      moreover have "place (objects g1 ! nat k) = CARRIED"
        unfolding o1 using True len by simp
      ultimately show ?thesis unfolding n2 n1 using True by simp
    next
      case False
      then show ?thesis unfolding n2 n1 by simp
    qed
    ultimately show ?thesis using l2 by blast
  qed
qed

text \<open>Changing a property code moves nothing.\<close>

lemma nth_prop_update:
  "place (xs[i := (xs ! i)\<lparr>prop' := v\<rparr>] ! n) = place (xs ! n)"
  "fixed (xs[i := (xs ! i)\<lparr>prop' := v\<rparr>] ! n) = fixed (xs ! n)"
proof -
  have "xs[i := y] = xs" if "\<not> i < length xs" for y
    using that by (simp add: list_update_beyond)
  moreover have "place (xs[i := (xs ! i)\<lparr>prop' := v\<rparr>] ! n) = place (xs ! n)"
     "fixed (xs[i := (xs ! i)\<lparr>prop' := v\<rparr>] ! n) = fixed (xs ! n)" if "i < length xs"
    using that by (simp_all add: nth_list_update)
  ultimately show "place (xs[i := (xs ! i)\<lparr>prop' := v\<rparr>] ! n) = place (xs ! n)"
  "fixed (xs[i := (xs ! i)\<lparr>prop' := v\<rparr>] ! n) = fixed (xs ! n)"
    by metis+
qed

lemma linked_set_prop:
  assumes inv: "linked d g None" and k: "1 \<le> k" "k \<le> NOBJECTS d"
  shows "\<exists>g'. set_prop k v g = Returns () g' \<and> linked d g' None
           \<and> g' = g\<lparr>objects := (objects g)[nat k := (objects g ! nat k)\<lparr>prop' := v\<rparr>]\<rparr>"
proof -
  note sz = linkedD(1) [OF inv]
  define g' where "g' = g\<lparr>objects := (objects g)[nat k := (objects g ! nat k)\<lparr>prop' := v\<rparr>]\<rparr>"
  have "nth_opt (objects g) k = Some (objects g ! nat k)"
    using sz k by (simp add: nth_opt_def sizes_ok_def)
  then have r: "set_prop k v g = Returns () g'"
    by (simp add: set_prop_def g'_def)
  have h: "home d g' j = home d g j" for j
    by (simp add: home_def g'_def nth_prop_update)
  have "linked d g' None"
  proof (rule linkedI)
    show "sizes_ok d g'" using sz by (simp add: sizes_ok_def g'_def)
    show "- 1 \<le> home d g' j \<and> home d g' j \<le> NLOCATIONS d"
      if "1 \<le> j" "j \<le> 2 * NOBJECTS d" for j
      using linkedD(2) [OF inv that] by (simp add: h)
    show "atloc (locs g' ! 0) = 0" using linkedD(3) [OF inv] by (simp add: g'_def)
    show "\<exists>xs. is_chain (link g') (atloc (locs g' ! nat l)) xs \<and>
          (\<forall>j\<in>{1..2 * NOBJECTS d}. (j \<in> set xs) = (Some j \<noteq> None \<and> home d g' j = l))"
      if "1 \<le> l" "l \<le> NLOCATIONS d" for l
      using linkedD(4) [OF inv that] by (simp add: h) (simp add: g'_def)
  qed
  with r show ?thesis by (simp add: g'_def)
qed

lemma put_linked:
  assumes inv: "linked d g None" and k: "1 \<le> k" "k \<le> NOBJECTS d"
    and w: "-1 \<le> w" "w \<le> NLOCATIONS d"
  shows "\<exists>g'. put d k w pval g = Returns () g' \<and> linked d g' None"
proof -
  have k2: "k \<le> 2 * NOBJECTS d" using k by simp
  obtain g1 where m: "move d k w g = Returns () g1" and l1: "linked d g1 None"
    using move_linked [OF inv k(1) k2 w] by blast
  obtain g' where "set_prop k (PROP_STASHIFY pval) g1 = Returns () g'" "linked d g' None"
    using linked_set_prop [OF l1 k] by blast
  with m show ?thesis by (simp add: put_def and_then_def OBJECT_STASHIFY_def)
qed

lemma juggle_linked:
  assumes inv: "linked d g None" and k: "1 \<le> k" "k \<le> NOBJECTS d"
  shows "\<exists>g'. juggle d k g = Returns () g' \<and> linked d g' None \<and> moved_only g g'
            \<and> objects g' = objects g"
proof -
  note sz = linkedD(1) [OF inv]
  have k2: "k \<le> 2 * NOBJECTS d" "1 \<le> k + NOBJECTS d" "k + NOBJECTS d \<le> 2 * NOBJECTS d"
    using k by auto
  have ob: "nth_opt (objects g) k = Some (objects g ! nat k)"
    using sz k by (simp add: nth_opt_def sizes_ok_def)
  have hp: "home d g k = place (objects g ! nat k)"
    using k by (simp add: home_def)
  have hf: "home d g (k + NOBJECTS d) = fixed (objects g ! nat k)"
    using k by (simp add: home_def)
  have wp: "-1 \<le> place (objects g ! nat k)" "place (objects g ! nat k) \<le> NLOCATIONS d"
    using linkedD(2) [OF inv k(1) k2(1)] hp by auto
  have wf: "-1 \<le> fixed (objects g ! nat k)" "fixed (objects g ! nat k) \<le> NLOCATIONS d"
    using linkedD(2) [OF inv k2(2,3)] hf by auto
  obtain g1 where m1: "move d k (place (objects g ! nat k)) g = Returns () g1"
    and l1: "linked d g1 None" and mo1: "moved_only g g1"
    and o1: "objects g1 = (objects g)[nat k := (objects g ! nat k)\<lparr>place := place (objects g ! nat k)\<rparr>]"
    using move_linked [OF inv k(1) k2(1) wp] k by auto
  have o1': "objects g1 = objects g" unfolding o1 by simp
  obtain g' where m2: "move d (k + NOBJECTS d) (fixed (objects g ! nat k)) g1 = Returns () g'"
    and l2: "linked d g' None" and mo2: "moved_only g1 g'"
    and o2: "objects g' = (objects g1)[nat k := (objects g1 ! nat k)\<lparr>fixed := fixed (objects g ! nat k)\<rparr>]"
    using move_linked [OF l1 k2(2,3) wf] k by auto
  have "objects g' = objects g" unfolding o2 o1' by simp
  moreover have "juggle d k g = Returns () g'"
    using ob m1 m2 by (simp add: juggle_def and_then_def)
  moreover have "moved_only g g'" by (rule moved_only_trans [OF mo1 mo2])
  ultimately show ?thesis using l2 by blast
qed

lemma linked_include:
  assumes inv: "linked d g (Some k)" and k: "1 \<le> k" "k \<le> 2 * NOBJECTS d" and h: "home d g k < 1"
  shows "linked d g None"
proof (rule linkedI [OF linkedD(1-3) [OF inv]])
  show "\<exists>xs. is_chain (link g) (atloc (locs g ! nat l)) xs \<and>
          (\<forall>j\<in>{1..2 * NOBJECTS d}. (j \<in> set xs) = (Some j \<noteq> None \<and> home d g j = l))"
    if l: "1 \<le> l" "l \<le> NLOCATIONS d" for l
  proof -
    obtain ys where ys: "is_chain (link g) (atloc (locs g ! nat l)) ys"
      and memy: "\<forall>j\<in>{1..2 * NOBJECTS d}. (j \<in> set ys) = (Some j \<noteq> Some k \<and> home d g j = l)"
      using linkedD(4) [OF inv l] by auto
    have "(j \<in> set ys) = (Some j \<noteq> None \<and> home d g j = l)" if "j \<in> {1..2 * NOBJECTS d}" for j
      using memy that h l by auto
    with ys show ?thesis by blast
  qed
qed

text \<open>
  What the invariant says of one id: it is on the chain of the location its place (or,
  for an id above \<open>NOBJECTS\<close>, its second place) names, and on no other chain; an id that
  is carried or nowhere is on no chain.
\<close>

lemma object_invariant_chains:
  assumes inv: "object_invariant d g" and k: "1 \<le> k" "k \<le> 2 * NOBJECTS d"
    and l: "0 \<le> l" "l \<le> NLOCATIONS d"
  shows "\<exists>xs. chain g l = Some xs \<and> (k \<in> set xs) = (1 \<le> l \<and> home d g k = l)"
proof (cases "l = 0")
  case True
  then show ?thesis using inv by (simp add: object_invariant_def linked_def)
next
  case False
  then have l1: "1 \<le> l" using l by simp
  from inv have lk: "linked d g None" by (simp add: object_invariant_def)
  obtain xs where xs: "is_chain (link g) (atloc (locs g ! nat l)) xs"
    and mem: "\<forall>j\<in>{1..2 * NOBJECTS d}. (j \<in> set xs) = (home d g j = l)"
    using linkedD(4) [OF lk l1 l(2)] by auto
  have "chain g l = Some xs"
    using xs l linkedD(1) [OF lk] by (subst chain_iff) (auto simp: sizes_ok_def)
  with mem k l1 show ?thesis by simp
qed

subsection \<open>The held count\<close>





section \<open>Results\<close>

subsection \<open>The generator\<close>

lemma js_rem_nonneg: "0 \<le> a \<Longrightarrow> 0 < b \<Longrightarrow> js_rem a b = a mod b"
  by (cases "a = 0") (simp_all add: js_rem_def)

lemma js_trunc_div_nonneg: "0 \<le> a \<Longrightarrow> 0 < b \<Longrightarrow> js_trunc_div a b = a div b"
  by (cases "a = 0") (simp_all add: js_trunc_div_def)

text \<open>A product below \<open>2^53\<close> in magnitude is exact.\<close>

lemma js_mul_exact: "\<bar>a * b\<bar> < 2 ^ 53 \<Longrightarrow> js_mul a b = Finite (a * b)"
  by (simp add: js_mul_def round_double_def)

text \<open>
  C2, amended. With the register \<open>x\<close> in \<open>[0, 1048576)\<close> and a positive integer range
  \<open>n\<close>, \<open>randrange\<close> leaves the register at \<open>(1093 * x + 221587) mod 1048576\<close>; and
  when the product \<open>n * x\<close> is below \<open>2^53\<close> (as it is for every \<open>n\<close> up to \<open>2^33\<close>) it
  returns \<open>floor (n * x / 1048576)\<close>, computed from the register before it advances.
\<close>

theorem randrange_lcg:
  assumes "0 \<le> lcgX g" "lcgX g < 1048576" "0 < n"
  shows "(n * lcgX g < 2 ^ 53 \<longrightarrow>
            fst (randrange settings n (g, out)) = Finite ((n * lcgX g) div 1048576))
       \<and> (n \<le> 2 ^ 33 \<longrightarrow> n * lcgX g < 2 ^ 53)
       \<and> lcgX (fst (snd (randrange settings n (g, out))))
           = (1093 * lcgX g + 221587) mod 1048576"
proof (intro conjI impI)
  have nn: "0 \<le> n * lcgX g" using assms by simp
  show "fst (randrange settings n (g, out)) = Finite ((n * lcgX g) div 1048576)"
    if "n * lcgX g < 2 ^ 53"
  proof -
    have "\<bar>n * lcgX g\<bar> < 2 ^ 53" using that nn by simp
    then have "js_mul n (lcgX g) = Finite (n * lcgX g)" by (rule js_mul_exact)
    moreover have "js_trunc_div (n * lcgX g) LCG_M = (n * lcgX g) div 1048576"
      using nn by (simp add: js_trunc_div_nonneg LCG_M_def)
    ultimately show ?thesis
      by (simp add: randrange_def getNextLcgValue_def Let_def trunc_quotient_def)
  qed
  show "n * lcgX g < 2 ^ 53" if "n \<le> 2 ^ 33"
  proof -
    have "n * lcgX g \<le> 2 ^ 33 * lcgX g" using that assms(1) by (rule mult_right_mono)
    also have "\<dots> < 2 ^ 33 * 1048576" using assms(2) by simp
    finally show ?thesis by simp
  qed
  have "js_rem (LCG_A * lcgX g + LCG_C) LCG_M = (1093 * lcgX g + 221587) mod 1048576"
    using assms by (simp add: js_rem_nonneg LCG_M_def LCG_A_def LCG_C_def)
  then show "lcgX (fst (snd (randrange settings n (g, out))))
           = (1093 * lcgX g + 221587) mod 1048576"
    by (simp add: randrange_def getNextLcgValue_def Let_def)
qed

text \<open>In the state \<open>game0\<close> the register is 5: a roll of 100 gives 0 and moves it to 227052.\<close>

theorem randrange_lcg_witness:
  "0 \<le> lcgX game0 \<and> lcgX game0 < 1048576 \<and> (0::int) < 100
   \<and> 100 * lcgX game0 < 2 ^ 53 \<and> (100::int) \<le> 2 ^ 33
   \<and> fst (randrange settings0 100 (game0, [])) = Finite 0
   \<and> lcgX (fst (snd (randrange settings0 100 (game0, [])))) = 227052"
proof -
  have x: "lcgX game0 = 5" by (simp add: game0_def)
  have h: "0 \<le> lcgX game0" "lcgX game0 < 1048576" "(0::int) < 100" by (simp_all add: x)
  from randrange_lcg [OF h, of settings0 "[]"] show ?thesis by (simp add: x)
qed

text \<open>
  With the register at 1048575 and the range 8590983169 the product, 9008290176434175,
  lies between \<open>2^53\<close> and \<open>2^54\<close> and is odd: as a double it is rounded up to
  9008290176434176, and the result is 8590974976 where the floor of the exact quotient
  is 8590974975.
\<close>

theorem randrange_rounds_product:
  "(0::int) \<le> 1048575 \<and> (1048575::int) < 1048576 \<and> (0::int) < 8590983169
   \<and> fst (randrange settings0 8590983169 (game0\<lparr>lcgX := 1048575\<rparr>, [])) = Finite 8590974976
   \<and> (8590983169 * 1048575) div 1048576 = (8590974975::int)"
  by code_simp

subsection \<open>Dwarves at a location\<close>

lemma atdwrf_unfold:
  assumes "5 < length (dwarves g)"
  shows "atdwrf g w =
     (if dflag g < 2 then Inr 0
      else if dwarf_loc g 1 = w then Inr 1
      else if dwarf_loc g 2 = w then Inr 2
      else if dwarf_loc g 3 = w then Inr 3
      else if dwarf_loc g 4 = w then Inr 4
      else if dwarf_loc g 5 = w then Inr 5
      else if dwarf_loc g 1 = 0 \<and> dwarf_loc g 2 = 0 \<and> dwarf_loc g 3 = 0
            \<and> dwarf_loc g 4 = 0 \<and> dwarf_loc g 5 = 0 then Inr (-1)
      else Inr 0)"
  using assms by (simp add: atdwrf_def nth_opt_def dwarf_loc_def)

lemma interval_1_5: "{1..5::int} = {1, 2, 3, 4, 5}"
  by auto

text \<open>The copy in dwarves.ts is the same function when \<open>NDWARVES\<close> is 6.\<close>

lemma atdwrf_dwarves_eq: "NDWARVES d = 6 \<Longrightarrow> atdwrf_dwarves d g w = atdwrf g w"
  by (simp add: atdwrf_dwarves_def atdwrf_def upto.simps)

text \<open>
  C10, as amended. In a state with its dwarf records (indices up to 5 present),
  \<open>atdwrf\<close> returns 0 when \<open>dflag\<close> is below 2; otherwise the smallest index in 1..5 of
  a dwarf whose location is \<open>where\<close>; -1 when all five have location 0 and \<open>where\<close> is
  not 0; 0 when one of the five is alive and none is at \<open>where\<close>. The record of the
  pirate (index 6) is not read.
\<close>

theorem atdwrf_cases:
  assumes "5 < length (dwarves g)"
  shows "(dflag g < 2 \<longrightarrow> atdwrf g w = Inr 0)
    \<and> (2 \<le> dflag g \<and> i \<in> {1..5} \<and> dwarf_loc g i = w
         \<and> (\<forall>j\<in>{1..<i}. dwarf_loc g j \<noteq> w) \<longrightarrow> atdwrf g w = Inr i)
    \<and> (2 \<le> dflag g \<and> (\<forall>j\<in>{1..5}. dwarf_loc g j = 0) \<and> w \<noteq> 0
         \<longrightarrow> atdwrf g w = Inr (-1))
    \<and> (2 \<le> dflag g \<and> (\<exists>j\<in>{1..5}. dwarf_loc g j \<noteq> 0)
         \<and> (\<forall>j\<in>{1..5}. dwarf_loc g j \<noteq> w) \<longrightarrow> atdwrf g w = Inr 0)
    \<and> atdwrf (g\<lparr>dwarves := (dwarves g)[6 := pirate]\<rparr>) w = atdwrf g w"
proof (intro conjI impI)
  assume "dflag g < 2"
  then show "atdwrf g w = Inr 0" by (simp add: atdwrf_def)
next
  assume a: "2 \<le> dflag g \<and> i \<in> {1..5} \<and> dwarf_loc g i = w
         \<and> (\<forall>j\<in>{1..<i}. dwarf_loc g j \<noteq> w)"
  then have "i = 1 \<or> i = 2 \<or> i = 3 \<or> i = 4 \<or> i = 5" by auto
  with a show "atdwrf g w = Inr i"
    by (auto simp: atdwrf_unfold [OF assms])
next
  assume "2 \<le> dflag g \<and> (\<forall>j\<in>{1..5}. dwarf_loc g j = 0) \<and> w \<noteq> 0"
  then show "atdwrf g w = Inr (-1)"
    by (simp add: atdwrf_unfold [OF assms] interval_1_5)
next
  assume "2 \<le> dflag g \<and> (\<exists>j\<in>{1..5}. dwarf_loc g j \<noteq> 0)
         \<and> (\<forall>j\<in>{1..5}. dwarf_loc g j \<noteq> w)"
  then show "atdwrf g w = Inr 0"
    by (simp add: atdwrf_unfold [OF assms] interval_1_5)
next
  show "atdwrf (g\<lparr>dwarves := (dwarves g)[6 := pirate]\<rparr>) w = atdwrf g w"
    using assms by (simp add: atdwrf_def nth_opt_def)
qed

text \<open>
  In \<open>game0\<close> the dwarves 1..5 are at 0, 3, 1, 0, 1 and the pirate is at 1: the first dwarf
  in room 1 is dwarf 3, no dwarf is in room 2, and with every dwarf dead the answer at
  room 2 is -1.
\<close>

theorem atdwrf_cases_witness:
  "5 < length (dwarves game0) \<and> 2 \<le> dflag game0
   \<and> atdwrf game0 1 = Inr 3 \<and> atdwrf game0 2 = Inr 0
   \<and> atdwrf (game0\<lparr>dflag := 1\<rparr>) 1 = Inr 0
   \<and> atdwrf (game0\<lparr>dwarves := [dw 0, dw 0, dw 0, dw 0, dw 0, dw 0, dw 2]\<rparr>) 2 = Inr (-1)"
proof -
  have len: "5 < length (dwarves game0)" by (simp add: game0_def)
  have fl: "2 \<le> dflag game0" by (simp add: game0_def)
  have l0: "dwarf_loc game0 1 = 0" "dwarf_loc game0 2 = 3" "dwarf_loc game0 3 = 1"
      "dwarf_loc game0 4 = 0" "dwarf_loc game0 5 = 1"
    by (simp_all add: dwarf_loc_def game0_def dw_def)
  have lt3: "{1..<3::int} = {1, 2}" by auto
  have a: "atdwrf game0 1 = Inr 3"
    using atdwrf_cases [OF len, where w = 1 and i = 3] fl l0 by (simp add: lt3)
  have b: "atdwrf game0 2 = Inr 0"
    using atdwrf_cases [OF len, where w = 2 and i = 1] fl l0 by (simp add: interval_1_5)
  have len1: "5 < length (dwarves (game0\<lparr>dflag := 1\<rparr>))" using len by simp
  have c: "atdwrf (game0\<lparr>dflag := 1\<rparr>) 1 = Inr 0"
    using atdwrf_cases [OF len1, where w = 1 and i = 1] by simp
  let ?dead = "game0\<lparr>dwarves := [dw 0, dw 0, dw 0, dw 0, dw 0, dw 0, dw 2]\<rparr>"
  have len2: "5 < length (dwarves ?dead)" by simp
  have d: "atdwrf ?dead 2 = Inr (-1)"
    using atdwrf_cases [OF len2, where w = 2 and i = 1] fl
    by (simp add: interval_1_5 dwarf_loc_def dw_def)
  from len fl a b c d show ?thesis by simp
qed

text \<open>
  The claim as worded gives -1 whenever all five dwarves have location 0. Asked about
  location 0 itself, the loop finds dwarf 1 there first and returns 1.
\<close>

theorem atdwrf_all_dead_at_nowhere:
  "dflag (game0\<lparr>dwarves := [dw 0, dw 0, dw 0, dw 0, dw 0, dw 0, dw 0]\<rparr>) = 2
   \<and> map (dwarf_loc (game0\<lparr>dwarves := [dw 0, dw 0, dw 0, dw 0, dw 0, dw 0, dw 0]\<rparr>)) [1, 2, 3, 4, 5]
       = [0, 0, 0, 0, 0]
   \<and> atdwrf (game0\<lparr>dwarves := [dw 0, dw 0, dw 0, dw 0, dw 0, dw 0, dw 0]\<rparr>) 0 = Inr 1"
  by (simp add: atdwrf_def nth_opt_def dwarf_loc_def dw_def game0_def)


subsection \<open>The object invariant\<close>

text \<open>
  C1, as amended. On a state that satisfies \<open>object_invariant\<close>, with an object id in
  \<open>[1, NOBJECTS]\<close> and a destination that is a location, nowhere (0) or \<open>CARRIED\<close>:
  \<open>move\<close>, \<open>put\<close> and \<open>juggle\<close> return and the invariant holds again; so does
  \<open>carry\<close> when it is given the location the object is at, and \<open>drop\<close> when the object
  is carried or nowhere. The invariant: an id whose place is a location is on the chain
  of that location and on no other chain; an id that is carried or nowhere is on no
  chain (\<open>object_invariant_chains\<close>).
\<close>

theorem object_invariant_preserved:
  assumes "object_invariant d g" and "1 \<le> object" "object \<le> NOBJECTS d"
    and "-1 \<le> w" "w \<le> NLOCATIONS d"
  shows "(\<exists>g'. move d object w g = Returns () g' \<and> object_invariant d g')
       \<and> (\<exists>g'. put d object w pval g = Returns () g' \<and> object_invariant d g')
       \<and> (\<exists>g'. juggle d object g = Returns () g' \<and> object_invariant d g')
       \<and> (place (objects g ! nat object) = w \<and> 1 \<le> w \<longrightarrow>
             (\<exists>g'. carry d object w g = Returns () g' \<and> object_invariant d g'))
       \<and> (place (objects g ! nat object) < 1 \<longrightarrow>
             (\<exists>g'. drop_obj d object w g = Returns () g' \<and> object_invariant d g'))"
proof -
  from assms(1) have inv: "linked d g None" by (simp add: object_invariant_def)
  have k2: "object \<le> 2 * NOBJECTS d" using assms(2,3) by simp
  have hp: "home d g object = place (objects g ! nat object)"
    using assms(3) by (simp add: home_def)
  have m: "\<exists>g'. move d object w g = Returns () g' \<and> object_invariant d g'"
    using move_linked [OF inv assms(2) k2 assms(4,5)] by (auto simp: object_invariant_def)
  have p: "\<exists>g'. put d object w pval g = Returns () g' \<and> object_invariant d g'"
    using put_linked [OF inv assms(2,3,4,5)] by (simp add: object_invariant_def)
  have j: "\<exists>g'. juggle d object g = Returns () g' \<and> object_invariant d g'"
    using juggle_linked [OF inv assms(2,3)] by (auto simp: object_invariant_def)
  have c: "\<exists>g'. carry d object w g = Returns () g' \<and> object_invariant d g'"
    if "place (objects g ! nat object) = w \<and> 1 \<le> w"
  proof -
    from that have hw: "home d g object = w" and w1: "1 \<le> w" using hp by auto
    obtain g' where r: "carry d object w g = Returns () g'" and l: "linked d g' (Some object)"
      and o: "objects g' = (if object \<le> NOBJECTS d
                then (objects g)[nat object := (objects g ! nat object)\<lparr>place := CARRIED\<rparr>]
                else objects g)"
      using carry_linked [OF inv assms(2) k2 hw w1] by blast
    have "nat object < length (objects g)"
      using linkedD(1) [OF inv] assms(2,3) unfolding sizes_ok_def by linarith
    then have "home d g' object = CARRIED"
      using assms(3) by (simp add: home_def o)
    then have "home d g' object < 1" by (simp add: CARRIED_def)
    from linked_include [OF l assms(2) k2 this] r show ?thesis
      by (auto simp: object_invariant_def)
  qed
  have dr: "\<exists>g'. drop_obj d object w g = Returns () g' \<and> object_invariant d g'"
    if "place (objects g ! nat object) < 1"
  proof -
    from that have "home d g object < 1" using hp by simp
    from linked_exclude [OF inv assms(2) k2 this] have "linked d g (Some object)" .
    from drop_linked [OF this assms(2) k2 assms(4,5)] show ?thesis
      by (auto simp: object_invariant_def)
  qed
  from m p j c dr show ?thesis by blast
qed

text \<open>
  In \<open>game0\<close>: the food (11), second on the chain of room 1, is moved, put and carried;
  the troll (4) is juggled; the emerald (2), which is carried, is dropped in room 4.
\<close>

theorem object_invariant_preserved_witness:
  "object_invariant d0 game0 \<and> (1::int) \<le> 11 \<and> 11 \<le> NOBJECTS d0 \<and> (-1::int) \<le> 1
   \<and> 1 \<le> NLOCATIONS d0 \<and> place (objects game0 ! nat 11) = 1 \<and> place (objects game0 ! nat 2) < 1
   \<and> (\<exists>g'. move d0 11 1 game0 = Returns () g' \<and> object_invariant d0 g')
   \<and> (\<exists>g'. put d0 11 1 0 game0 = Returns () g' \<and> object_invariant d0 g')
   \<and> (\<exists>g'. juggle d0 4 game0 = Returns () g' \<and> object_invariant d0 g')
   \<and> (\<exists>g'. carry d0 11 1 game0 = Returns () g' \<and> object_invariant d0 g')
   \<and> (\<exists>g'. drop_obj d0 2 4 game0 = Returns () g' \<and> object_invariant d0 g')"
proof -
  have inv: "object_invariant d0 game0" by code_simp
  have n: "(1::int) \<le> 11" "11 \<le> NOBJECTS d0" "(1::int) \<le> 4" "4 \<le> NOBJECTS d0"
      "(1::int) \<le> 2" "2 \<le> NOBJECTS d0"
    by (simp_all add: d0_def)
  have w: "(-1::int) \<le> 1" "1 \<le> NLOCATIONS d0" "(-1::int) \<le> 4" "4 \<le> NLOCATIONS d0"
    by (simp_all add: d0_def)
  have p: "place (objects game0 ! nat 11) = 1" "place (objects game0 ! nat 2) < 1"
    by (simp_all add: game0_def os_def)
  note a = object_invariant_preserved [OF inv n(1,2) w(1,2), of 0]
  note b = object_invariant_preserved [OF inv n(3,4) w(1,2), of 0]
  note c = object_invariant_preserved [OF inv n(5,6) w(3,4), of 0]
  from a b c inv n w p show ?thesis by simp
qed

text \<open>
  The claim as worded covers \<open>drop\<close> by itself, with any valid object and location. In
  \<open>game1\<close> (two objects, two rooms, the bird alone in room 1, the emerald carried) the
  invariant of the wording holds; dropping the bird in room 2 leaves it at the head of
  the chains of both rooms.
\<close>

theorem drop_leaves_two_chains:
  "claimed_invariant d1 game1 \<and> object_invariant d1 game1
   \<and> drop_obj d1 1 2 game1 = Returns () game1_dropped
   \<and> chain game1_dropped 1 = Some [1] \<and> chain game1_dropped 2 = Some [1]
   \<and> \<not> claimed_invariant d1 game1_dropped"
  by code_simp

subsection \<open>The held count\<close>




subsection \<open>Movement\<close>

lemma find_entry_none:
  assumes "0 \<le> k" "k \<le> j" "j < int (length (travel d))" "stop (travel d ! nat j)"
    and "\<forall>i\<in>{k..<j}. \<not> stop (travel d ! nat i)"
    and "\<forall>i\<in>{k..j}. TravelOp.motion (travel d ! nat i) \<noteq> Motion d motion_name.HERE
                   \<and> TravelOp.motion (travel d ! nat i) \<noteq> m"
  shows "find_entry d m k = Inr None"
  using assms
proof (induction "nat (j - k)" arbitrary: k)
  case 0
  then have "k = j" by simp
  with 0 show ?case
    by (subst find_entry.simps) (simp add: nth_opt_def)
next
  case (Suc n)
  then have kj: "k < j" by simp
  have "find_entry d m (k + 1) = Inr None"
  proof (rule Suc.hyps(1))
    show "n = nat (j - (k + 1))" using Suc.hyps(2) by simp
    show "\<forall>i\<in>{k + 1..<j}. \<not> stop (travel d ! nat i)" using Suc.prems(5) by simp
    show "\<forall>i\<in>{k + 1..j}. TravelOp.motion (travel d ! nat i) \<noteq> Motion d motion_name.HERE
                   \<and> TravelOp.motion (travel d ! nat i) \<noteq> m"
      using Suc.prems(6) by simp
  qed (use Suc.prems kj in simp_all)
  moreover have "\<not> stop (travel d ! nat k)" using Suc.prems(5) kj by simp
  moreover have "TravelOp.motion (travel d ! nat k) \<noteq> Motion d motion_name.HERE
                   \<and> TravelOp.motion (travel d ! nat k) \<noteq> m"
    using Suc.prems(6) kj by simp
  ultimately show ?case
    using Suc.prems(1,3) kj by (subst find_entry.simps) (simp add: nth_opt_def)
qed


text \<open>Testing a condition changes nothing but the generator and the debug trace.\<close>

lemma condition_met_frame:
  assumes "condition_met d settings t (g, out) = Returns b (g1, out1)"
  shows "g1 = g\<lparr>lcgX := lcgX g1\<rparr>"
  using assms
  by (auto simp: condition_met_def PCT_def randrange_def getNextLcgValue_def Let_def
           split: if_splits sum.splits bool.splits option.splits prod.splits)


lemma image_disjoint:
  assumes "inj_on f S" "A \<subseteq> S" "B \<subseteq> S" "A \<inter> B = {}"
  shows "f ` A \<inter> f ` B = {}"
  using assms by (metis inj_on_image_Int image_empty)

lemma notin_disjoint: "x \<in> A \<Longrightarrow> B \<inter> A = {} \<Longrightarrow> x \<notin> B"
  by blast

lemma notin_subset: "x \<notin> T \<Longrightarrow> A \<subseteq> T \<Longrightarrow> x \<notin> A"
  by blast

text \<open>An ordinary motion: none of the four that \<open>playermove\<close> handles before the table.\<close>

lemma playermove_ordinary:
  assumes "nth_opt (tkey d) (loc g) = Some k" "k \<noteq> 0"
    and "m \<notin> Motion d ` {NUL, BACK, LOOK, CAVE}"
  shows "playermove d settings croak m (g, out) =
           ordinary_travel d settings croak m k
             (g\<lparr>newloc := loc g, oldlc2 := oldloc g, oldloc := loc g\<rparr>, out)"
  using assms by (simp add: playermove_def Let_def)

text \<open>
  C4. At a location with travel entries (\<open>tkey\<close> positive, the run of entries from it
  ending at the first \<open>stop\<close>), a motion other than \<open>NUL\<close>, \<open>BACK\<close>, \<open>LOOK\<close> and \<open>CAVE\<close>
  that no entry of the run matches leaves \<open>loc\<close> as it is, sets \<open>newloc\<close> to it, and
  emits one message, chosen by the class of the motion. The motion ids are distinct, as
  members of one enum are.
\<close>

theorem no_matching_rule:
  assumes "nth_opt (tkey d) (loc g) = Some k" "0 < k"
    and "m \<notin> Motion d ` {NUL, BACK, LOOK, CAVE}"
    and "k \<le> j" "j < int (length (travel d))" "stop (travel d ! nat j)"
    and "\<forall>i\<in>{k..<j}. \<not> stop (travel d ! nat i)"
    and "\<forall>i\<in>{k..j}. TravelOp.motion (travel d ! nat i) \<noteq> Motion d motion_name.HERE
                   \<and> TravelOp.motion (travel d ! nat i) \<noteq> m"
    and "distinct (map (Motion d) [EAST, WEST, SOUTH, NORTH, NE, NW, SW, SE, UP, DOWN,
                                   FORWARD, LEFT, RIGHT, OUTSIDE, INSIDE, XYZZY, PLUGH, CRAWL])"
  shows "\<exists>g' msg. playermove d settings croak m (g, out) = Returns () (g', out @ [Rspeak msg []])
     \<and> loc g' = loc g \<and> newloc g' = loc g
     \<and> (m \<in> Motion d ` {EAST, WEST, SOUTH, NORTH, NE, NW, SW, SE, UP, DOWN}
          \<longrightarrow> msg = Msg d BAD_DIRECTION)
     \<and> (m \<in> Motion d ` {FORWARD, LEFT, RIGHT} \<longrightarrow> msg = Msg d UNSURE_FACING)
     \<and> (m \<in> Motion d ` {OUTSIDE, INSIDE} \<longrightarrow> msg = Msg d NO_INOUT_HERE)
     \<and> (m \<in> Motion d ` {XYZZY, PLUGH} \<longrightarrow> msg = Msg d NOTHING_HAPPENS)
     \<and> (m = Motion d CRAWL \<longrightarrow> msg = Msg d WHICH_WAY)
     \<and> (m \<notin> Motion d ` {EAST, WEST, SOUTH, NORTH, NE, NW, SW, SE, UP, DOWN, FORWARD, LEFT,
                          RIGHT, OUTSIDE, INSIDE, XYZZY, PLUGH, CRAWL}
          \<longrightarrow> msg = Msg d CANT_APPLY)"
proof -
  let ?C1 = "{EAST, WEST, SOUTH, NORTH, NE, NW, SW, SE, UP, DOWN}"
  let ?C2 = "{FORWARD, LEFT, RIGHT}"
  let ?C3 = "{OUTSIDE, INSIDE}"
  let ?C4 = "{XYZZY, PLUGH}"
  let ?C5 = "{CRAWL}"
  let ?S = "set [EAST, WEST, SOUTH, NORTH, NE, NW, SW, SE, UP, DOWN,
                 FORWARD, LEFT, RIGHT, OUTSIDE, INSIDE, XYZZY, PLUGH, CRAWL]"
  have k0: "0 \<le> k" "k \<noteq> 0" using assms(2) by simp_all
  have fe: "find_entry d m k = Inr None"
    by (rule find_entry_none [OF k0(1) assms(4-8)])
  let ?g = "g\<lparr>newloc := loc g, oldlc2 := oldloc g, oldloc := loc g\<rparr>"
  have run: "playermove d settings croak m (g, out) = Returns () (?g, out @ [Rspeak (cant_go d m) []])"
    unfolding playermove_ordinary [OF assms(1) k0(2) assms(3)]
    by (simp add: ordinary_travel_def fe rspeak_def emit_def)
  have inj: "inj_on (Motion d) ?S"
    using assms(9) by (simp only: distinct_map)
  have d12: "Motion d ` ?C1 \<inter> Motion d ` ?C2 = {}" by (rule image_disjoint [OF inj]) auto
  have d13: "Motion d ` ?C1 \<inter> Motion d ` ?C3 = {}" by (rule image_disjoint [OF inj]) auto
  have d14: "Motion d ` ?C1 \<inter> Motion d ` ?C4 = {}" by (rule image_disjoint [OF inj]) auto
  have d15: "Motion d ` ?C1 \<inter> Motion d ` ?C5 = {}" by (rule image_disjoint [OF inj]) auto
  have d23: "Motion d ` ?C2 \<inter> Motion d ` ?C3 = {}" by (rule image_disjoint [OF inj]) auto
  have d24: "Motion d ` ?C2 \<inter> Motion d ` ?C4 = {}" by (rule image_disjoint [OF inj]) auto
  have d25: "Motion d ` ?C2 \<inter> Motion d ` ?C5 = {}" by (rule image_disjoint [OF inj]) auto
  have d34: "Motion d ` ?C3 \<inter> Motion d ` ?C4 = {}" by (rule image_disjoint [OF inj]) auto
  have d35: "Motion d ` ?C3 \<inter> Motion d ` ?C5 = {}" by (rule image_disjoint [OF inj]) auto
  have d45: "Motion d ` ?C4 \<inter> Motion d ` ?C5 = {}" by (rule image_disjoint [OF inj]) auto
  have crawl: "Motion d ` ?C5 = {Motion d CRAWL}" by simp
  have c1: "cant_go d m = Msg d BAD_DIRECTION" if "m \<in> Motion d ` ?C1"
    using that unfolding cant_go_def by (simp only: if_True)
  have c2: "cant_go d m = Msg d UNSURE_FACING" if a: "m \<in> Motion d ` ?C2"
  proof -
    have "m \<notin> Motion d ` ?C1" by (rule notin_disjoint [OF a d12])
    with a show ?thesis unfolding cant_go_def by (simp only: if_True if_False)
  qed
  have c3: "cant_go d m = Msg d NO_INOUT_HERE" if a: "m \<in> Motion d ` ?C3"
  proof -
    have "m \<notin> Motion d ` ?C1" "m \<notin> Motion d ` ?C2"
      by (rule notin_disjoint [OF a d13], rule notin_disjoint [OF a d23])
    with a show ?thesis unfolding cant_go_def by (simp only: if_True if_False)
  qed
  have c4: "cant_go d m = Msg d NOTHING_HAPPENS" if a: "m \<in> Motion d ` ?C4"
  proof -
    have "m \<notin> Motion d ` ?C1" "m \<notin> Motion d ` ?C2" "m \<notin> Motion d ` ?C3"
      by (rule notin_disjoint [OF a d14], rule notin_disjoint [OF a d24],
          rule notin_disjoint [OF a d34])
    with a show ?thesis unfolding cant_go_def by (simp only: if_True if_False)
  qed
  have c5: "cant_go d m = Msg d WHICH_WAY" if a: "m = Motion d CRAWL"
  proof -
    from a crawl have b: "m \<in> Motion d ` ?C5" by simp
    have "m \<notin> Motion d ` ?C1" "m \<notin> Motion d ` ?C2"
        "m \<notin> Motion d ` ?C3" "m \<notin> Motion d ` ?C4"
      by (rule notin_disjoint [OF b d15], rule notin_disjoint [OF b d25],
          rule notin_disjoint [OF b d35], rule notin_disjoint [OF b d45])
    with a show ?thesis unfolding cant_go_def by (simp only: if_True if_False refl)
  qed
  have c6: "cant_go d m = Msg d CANT_APPLY"
    if a: "m \<notin> Motion d ` {EAST, WEST, SOUTH, NORTH, NE, NW, SW, SE, UP, DOWN, FORWARD, LEFT,
                          RIGHT, OUTSIDE, INSIDE, XYZZY, PLUGH, CRAWL}"
  proof -
    have sub: "Motion d ` ?C1 \<subseteq> Motion d ` ?S" "Motion d ` ?C2 \<subseteq> Motion d ` ?S"
        "Motion d ` ?C3 \<subseteq> Motion d ` ?S" "Motion d ` ?C4 \<subseteq> Motion d ` ?S"
        "Motion d ` ?C5 \<subseteq> Motion d ` ?S"
      by (rule image_mono, simp)+
    from a have n: "m \<notin> Motion d ` ?S" by simp
    have "m \<notin> Motion d ` ?C1" "m \<notin> Motion d ` ?C2"
        "m \<notin> Motion d ` ?C3" "m \<notin> Motion d ` ?C4" "m \<notin> Motion d ` ?C5"
      by (rule notin_subset [OF n sub(1)], rule notin_subset [OF n sub(2)],
          rule notin_subset [OF n sub(3)], rule notin_subset [OF n sub(4)],
          rule notin_subset [OF n sub(5)])
    moreover from this(5) crawl have "m \<noteq> Motion d CRAWL" by simp
    ultimately show ?thesis unfolding cant_go_def by (simp only: if_False)
  qed
  show ?thesis
  proof (rule exI [of _ ?g], rule exI [of _ "cant_go d m"], intro conjI)
    show "playermove d settings croak m (g, out) = Returns () (?g, out @ [Rspeak (cant_go d m) []])"
      by (rule run)
    show "loc ?g = loc g" by simp
    show "newloc ?g = loc g" by simp
    show "m \<in> Motion d ` ?C1 \<longrightarrow> cant_go d m = Msg d BAD_DIRECTION" using c1 by (rule impI)
    show "m \<in> Motion d ` ?C2 \<longrightarrow> cant_go d m = Msg d UNSURE_FACING" using c2 by (rule impI)
    show "m \<in> Motion d ` ?C3 \<longrightarrow> cant_go d m = Msg d NO_INOUT_HERE" using c3 by (rule impI)
    show "m \<in> Motion d ` ?C4 \<longrightarrow> cant_go d m = Msg d NOTHING_HAPPENS" using c4 by (rule impI)
    show "m = Motion d CRAWL \<longrightarrow> cant_go d m = Msg d WHICH_WAY" using c5 by (rule impI)
    show "m \<notin> Motion d ` {EAST, WEST, SOUTH, NORTH, NE, NW, SW, SE, UP, DOWN, FORWARD, LEFT,
                          RIGHT, OUTSIDE, INSIDE, XYZZY, PLUGH, CRAWL}
          \<longrightarrow> cant_go d m = Msg d CANT_APPLY" using c6 by (rule impI)
  qed
qed


lemma interval_1_2: "{1..<2::int} = {1}" "{1..2::int} = {1, 2}"
  by auto

text \<open>
  In \<open>game0\<close> the player is in room 1, whose entries are 1 (east) and 2 (west, the
  last): north matches neither.
\<close>

theorem no_matching_rule_witness:
  "nth_opt (tkey d0) (loc game0) = Some 1 \<and> Motion d0 NORTH \<notin> Motion d0 ` {NUL, BACK, LOOK, CAVE}
   \<and> stop (travel d0 ! nat 2) \<and> \<not> stop (travel d0 ! nat 1)
   \<and> (\<exists>g'. playermove d0 settings0 croak0 (Motion d0 NORTH) (game0, [])
              = Returns () (g', [Rspeak (Msg d0 BAD_DIRECTION) []])
          \<and> loc g' = loc game0 \<and> newloc g' = loc game0)"
proof -
  have a: "nth_opt (tkey d0) (loc game0) = Some 1" "(0::int) < 1"
    by (simp_all add: d0_def game0_def nth_opt_def)
  have b: "Motion d0 NORTH \<notin> Motion d0 ` {NUL, BACK, LOOK, CAVE}"
    by (simp add: d0_def)
  have c: "(1::int) \<le> 2" "2 < int (length (travel d0))" "stop (travel d0 ! nat 2)"
      "\<forall>i\<in>{1..<2}. \<not> stop (travel d0 ! nat i)"
      "\<forall>i\<in>{1..2}. TravelOp.motion (travel d0 ! nat i) \<noteq> Motion d0 motion_name.HERE
                   \<and> TravelOp.motion (travel d0 ! nat i) \<noteq> Motion d0 NORTH"
    by (simp_all add: d0_def tr_def interval_1_2)
  have e: "distinct (map (Motion d0) [EAST, WEST, SOUTH, NORTH, NE, NW, SW, SE, UP, DOWN,
                                   FORWARD, LEFT, RIGHT, OUTSIDE, INSIDE, XYZZY, PLUGH, CRAWL])"
    by (simp add: d0_def)
  have n: "Motion d0 NORTH \<in> Motion d0 ` {EAST, WEST, SOUTH, NORTH, NE, NW, SW, SE, UP, DOWN}"
    by simp
  from no_matching_rule [OF a b c e, of settings0 croak0 "[]"] n
  have "\<exists>g'. playermove d0 settings0 croak0 (Motion d0 NORTH) (game0, [])
              = Returns () (g', [Rspeak (Msg d0 BAD_DIRECTION) []])
          \<and> loc g' = loc game0 \<and> newloc g' = loc game0"
    by auto
  with a b c show ?thesis by (simp add: interval_1_2)
qed

text \<open>
  C8. When the rule found for a motion is special travel 1 and its condition holds, the
  player goes to the other of the two rooms if \<open>holdng\<close> is 0, or is 1 with the emerald
  carried; otherwise \<open>newloc\<close> is the current location again and \<open>MUST_DROP\<close> is
  spoken. \<open>g1\<close> is the game after the condition was tested (the generator may have
  rolled); the count of held objects is not negative.
\<close>

theorem plover_alcove_passage:
  assumes "nth_opt (tkey d) (loc g) = Some k" "k \<noteq> 0"
    and "m \<notin> Motion d ` {NUL, BACK, LOOK, CAVE}"
    and "find_entry d m k = Inr (Some e)" "nth_opt (travel d) e = Some t"
    and "desttype t = dest_special" "destval t = 1"
    and "condition_met d settings t
           (g\<lparr>newloc := loc g, oldlc2 := oldloc g, oldloc := loc g\<rparr>, out) = Returns True (g1, out1)"
    and "0 \<le> holdng g" and "nth_opt (objects g) (Obj d EMERALD) = Some emerald"
  shows "playermove d settings croak m (g, out) =
     (if holdng g = 0 \<or> (holdng g = 1 \<and> place emerald = CARRIED)
      then Returns ()
             (g1\<lparr>newloc := (if loc g = Location d LOC_PLOVER then Location d LOC_ALCOVE
                              else Location d LOC_PLOVER)\<rparr>, out1)
      else Returns () (g1\<lparr>newloc := loc g\<rparr>, out1 @ [Rspeak (Msg d MUST_DROP) []]))"
proof -
  let ?g = "g\<lparr>newloc := loc g, oldlc2 := oldloc g, oldloc := loc g\<rparr>"
  have fr: "g1 = ?g\<lparr>lcgX := lcgX g1\<rparr>" by (rule condition_met_frame [OF assms(8)])
  have f: "holdng g1 = holdng g" "loc g1 = loc g" "objects g1 = objects g"
    by (subst fr, simp)+
  have "playermove d settings croak m (g, out) = travel_loop d settings croak e (?g, out)"
    unfolding playermove_ordinary [OF assms(1-3)]
    by (simp add: ordinary_travel_def assms(4))
  also have "\<dots> = plover_passage d (g1\<lparr>newloc := 1\<rparr>, out1)"
    by (subst travel_loop.simps) (simp add: assms(5-8))
  also have "\<dots> = (if holdng g = 0 \<or> (holdng g = 1 \<and> place emerald = CARRIED)
      then Returns ()
             (g1\<lparr>newloc := (if loc g = Location d LOC_PLOVER then Location d LOC_ALCOVE
                              else Location d LOC_PLOVER)\<rparr>, out1)
      else Returns () (g1\<lparr>newloc := loc g\<rparr>, out1 @ [Rspeak (Msg d MUST_DROP) []]))"
    using assms(9,10)
    by (auto simp: plover_passage_def Let_def f TOTING_def rspeak_def emit_def)
  finally show ?thesis .
qed

text \<open>
  In \<open>game0\<close> the player is in room 1 (the Plover room) and holds the emerald alone:
  west leads to room 2. Holding a second object, the player stays and is told to drop.
\<close>

theorem plover_alcove_passage_witness:
  "find_entry d0 (Motion d0 WEST) 1 = Inr (Some 2)
   \<and> condition_met d0 settings0 (travel d0 ! 2)
        (game0\<lparr>newloc := loc game0, oldlc2 := oldloc game0, oldloc := loc game0\<rparr>, [])
       = Returns True (game0, [])
   \<and> playermove d0 settings0 croak0 (Motion d0 WEST) (game0, [])
       = Returns () (game0\<lparr>newloc := 2\<rparr>, [])
   \<and> playermove d0 settings0 croak0 (Motion d0 WEST) (game0\<lparr>holdng := 2\<rparr>, [])
       = Returns () (game0\<lparr>holdng := 2\<rparr>, [Rspeak (Msg d0 MUST_DROP) []])"
proof -
  have a: "nth_opt (tkey d0) (loc game0) = Some 1" "(1::int) \<noteq> 0"
    by (simp_all add: d0_def game0_def nth_opt_def)
  have b: "Motion d0 WEST \<notin> Motion d0 ` {NUL, BACK, LOOK, CAVE}"
    by (simp add: d0_def)
  have c: "find_entry d0 (Motion d0 WEST) 1 = Inr (Some 2)" by code_simp
  have t: "nth_opt (travel d0) 2 = Some (travel d0 ! 2)" "desttype (travel d0 ! 2) = dest_special"
      "destval (travel d0 ! 2) = 1"
    by (simp_all add: d0_def tr_def nth_opt_def)
  have g: "game0\<lparr>newloc := loc game0, oldlc2 := oldloc game0, oldloc := loc game0\<rparr> = game0"
    by (simp add: game0_def)
  have cm: "condition_met d0 settings0 (travel d0 ! 2)
        (game0\<lparr>newloc := loc game0, oldlc2 := oldloc game0, oldloc := loc game0\<rparr>, [])
       = Returns True (game0, [])"
    unfolding g by (simp add: condition_met_def d0_def tr_def cond_not_def cond_goto_def)
  have h: "0 \<le> holdng game0" "nth_opt (objects game0) (Obj d0 EMERALD) = Some (os (-1) 0 0)"
    by (simp_all add: game0_def d0_def nth_opt_def)
  have p: "Location d0 LOC_PLOVER = 1" "Location d0 LOC_ALCOVE = 2" "loc game0 = 1"
      "holdng game0 = 1" "place (os (-1) 0 0) = CARRIED"
    by (simp_all add: d0_def game0_def os_def CARRIED_def)
  have one: "playermove d0 settings0 croak0 (Motion d0 WEST) (game0, [])
       = Returns () (game0\<lparr>newloc := 2\<rparr>, [])"
    using plover_alcove_passage [OF a b c t cm h, of croak0] by (simp add: p)
  let ?two = "game0\<lparr>holdng := 2\<rparr>"
  have a2: "nth_opt (tkey d0) (loc ?two) = Some 1" using a by simp
  have g2: "?two\<lparr>newloc := loc ?two, oldlc2 := oldloc ?two, oldloc := loc ?two\<rparr> = ?two"
    by (simp add: game0_def)
  have cm2: "condition_met d0 settings0 (travel d0 ! 2)
        (?two\<lparr>newloc := loc ?two, oldlc2 := oldloc ?two, oldloc := loc ?two\<rparr>, [])
       = Returns True (?two, [])"
    unfolding g2 by (simp add: condition_met_def d0_def tr_def cond_not_def cond_goto_def)
  have h2: "0 \<le> holdng ?two" "nth_opt (objects ?two) (Obj d0 EMERALD) = Some (os (-1) 0 0)"
    using h by simp_all
  have y: "?two\<lparr>newloc := 1\<rparr> = ?two" by (simp add: game0_def)
  have two: "playermove d0 settings0 croak0 (Motion d0 WEST) (?two, [])
       = Returns () (?two, [Rspeak (Msg d0 MUST_DROP) []])"
    using plover_alcove_passage [OF a2 a(2) b c t cm2 h2, of croak0] by (simp add: p y)
  from c cm one two show ?thesis by simp
qed




subsection \<open>Restore\<close>






subsection \<open>Feeding the snake\<close>

text \<open>
  C6. Feeding the snake while the cave is not closed and the bird is here destroys the
  bird and speaks \<open>BIRD_DEVOURED\<close>: on a state that satisfies the object invariant the
  call returns, the bird's place becomes nowhere and the invariant holds, so the bird
  is on no chain. When the cave is closed the same call, on any state, changes nothing
  and speaks \<open>NOTHING_EDIBLE\<close>. The ids of the snake, the bird and the dragon are
  distinct, as enum members are.
\<close>

theorem feed_snake:
  assumes "Obj d SNAKE \<noteq> Obj d BIRD" "Obj d SNAKE \<noteq> Obj d DRAGON"
  shows "(\<not> closed g \<and> HERE g (Obj d BIRD) = Inr True
          \<and> object_invariant d g \<and> 1 \<le> Obj d BIRD \<and> Obj d BIRD \<le> NOBJECTS d \<longrightarrow>
           (\<exists>g'. feed d verb (Obj d SNAKE) (g, out)
                    = Returns GO_CLEAROBJ (g', out @ [Rspeak (Msg d BIRD_DEVOURED) []])
                \<and> place (objects g' ! nat (Obj d BIRD)) = LOC_NOWHERE
                \<and> object_invariant d g'))
       \<and> (closed g \<longrightarrow>
           feed d verb (Obj d SNAKE) (g, out)
             = Returns GO_CLEAROBJ (g, out @ [Rspeak (Msg d NOTHING_EDIBLE) []]))"
proof (intro conjI impI)
  assume a: "\<not> closed g \<and> HERE g (Obj d BIRD) = Inr True
          \<and> object_invariant d g \<and> 1 \<le> Obj d BIRD \<and> Obj d BIRD \<le> NOBJECTS d"
  then have inv: "linked d g None" and b: "1 \<le> Obj d BIRD" "Obj d BIRD \<le> NOBJECTS d"
    by (simp_all add: object_invariant_def)
  have k2: "Obj d BIRD \<le> 2 * NOBJECTS d" using b by simp
  have w: "-1 \<le> LOC_NOWHERE" "LOC_NOWHERE \<le> NLOCATIONS d"
    using linkedD(1) [OF inv] by (simp_all add: LOC_NOWHERE_def sizes_ok_def)
  obtain g' where m: "move d (Obj d BIRD) LOC_NOWHERE g = Returns () g'" and l: "linked d g' None"
    and o: "objects g' = (objects g)[nat (Obj d BIRD) :=
               (objects g ! nat (Obj d BIRD))\<lparr>place := LOC_NOWHERE\<rparr>]"
    using move_linked [OF inv b(1) k2 w] b(2) by auto
  have len: "nat (Obj d BIRD) < length (objects g)"
    using linkedD(1) [OF inv] b unfolding sizes_ok_def by linarith
  have p: "place (objects g' ! nat (Obj d BIRD)) = LOC_NOWHERE"
    unfolding o using len by simp
  have "feed d verb (Obj d SNAKE) (g, out)
          = Returns GO_CLEAROBJ (g', out @ [Rspeak (Msg d BIRD_DEVOURED) []])"
    using a assms m
    by (simp add: feed_def feed_case_def and_then_def on_game_def destroy_def rspeak_def emit_def)
  with p l show "\<exists>g'. feed d verb (Obj d SNAKE) (g, out)
                    = Returns GO_CLEAROBJ (g', out @ [Rspeak (Msg d BIRD_DEVOURED) []])
                \<and> place (objects g' ! nat (Obj d BIRD)) = LOC_NOWHERE
                \<and> object_invariant d g'"
    by (auto simp: object_invariant_def)
next
  assume "closed g"
  then show "feed d verb (Obj d SNAKE) (g, out)
             = Returns GO_CLEAROBJ (g, out @ [Rspeak (Msg d NOTHING_EDIBLE) []])"
    using assms
    by (simp add: feed_def feed_case_def and_then_def rspeak_def emit_def)
qed

text \<open>
  In \<open>game0\<close> the bird lies in room 1, where the player is: fed to the snake it ends
  nowhere, and room 1 keeps the food. \<open>game_closed\<close> is a closed state in which the
  bird is here and the object invariant does not hold (the second id of object 5 is at
  room 1 and on no chain, as the mirror's is after the cave has closed): nothing changes.
\<close>

theorem feed_snake_witness:
  "Obj d0 SNAKE \<noteq> Obj d0 BIRD \<and> Obj d0 SNAKE \<noteq> Obj d0 DRAGON
   \<and> \<not> closed game0 \<and> HERE game0 (Obj d0 BIRD) = Inr True \<and> object_invariant d0 game0
   \<and> 1 \<le> Obj d0 BIRD \<and> Obj d0 BIRD \<le> NOBJECTS d0
   \<and> feed d0 1 (Obj d0 SNAKE) (game0, [])
       = Returns GO_CLEAROBJ
           (game0\<lparr>locs := (locs game0)[1 := at0 11],
                   objects := (objects game0)[1 := os 0 0 0]\<rparr>,
            [Rspeak (Msg d0 BIRD_DEVOURED) []])
   \<and> closed game_closed \<and> HERE game_closed (Obj d0 BIRD) = Inr True
   \<and> \<not> object_invariant d0 game_closed
   \<and> feed d0 1 (Obj d0 SNAKE) (game_closed, [])
       = Returns GO_CLEAROBJ (game_closed, [Rspeak (Msg d0 NOTHING_EDIBLE) []])"
proof -
  have inv: "object_invariant d0 game0" "\<not> object_invariant d0 game_closed" by code_simp+
  have ids: "Obj d0 SNAKE \<noteq> Obj d0 BIRD" "Obj d0 SNAKE \<noteq> Obj d0 DRAGON"
    by (simp_all add: d0_def)
  have b: "1 \<le> Obj d0 BIRD" "Obj d0 BIRD \<le> NOBJECTS d0" by (simp_all add: d0_def)
  have h: "\<not> closed game0" "HERE game0 (Obj d0 BIRD) = Inr True"
    by (simp_all add: game0_def d0_def HERE_def AT_def nth_opt_def os_def)
  have hc: "closed game_closed" "HERE game_closed (Obj d0 BIRD) = Inr True" by code_simp+
  from feed_snake [OF ids, of game0 1 "[]"] h inv(1) b
  obtain g' where f: "feed d0 1 (Obj d0 SNAKE) (game0, [])
       = Returns GO_CLEAROBJ (g', [Rspeak (Msg d0 BIRD_DEVOURED) []])"
    by auto
  have e: "feed d0 1 (Obj d0 SNAKE) (game0, [])
       = Returns GO_CLEAROBJ
           (game0\<lparr>locs := (locs game0)[1 := at0 11],
                   objects := (objects game0)[1 := os 0 0 0]\<rparr>,
            [Rspeak (Msg d0 BIRD_DEVOURED) []])"
    by code_simp
  have c: "feed d0 1 (Obj d0 SNAKE) (game_closed, [])
       = Returns GO_CLEAROBJ (game_closed, [Rspeak (Msg d0 NOTHING_EDIBLE) []])"
    using feed_snake [OF ids, of game_closed 1 "[]"] hc(1) by simp
  from inv ids b h hc f e c show ?thesis by simp
qed


subsection \<open>The magic words\<close>















end
